theory Spec2Isabelle
  imports Main
begin

section \<open>Data model\<close>

text \<open>
  Modelled from the spec: the class \<open>Connection\<close> (Connection.h) is not among the
  sources. The spec's RawConnection tracks its own idle-start timestamp and is opened
  against a database endpoint; the record keeps the timestamp and whether the last
  \<open>connect\<close> succeeded.
\<close>

record connection =
  connected :: bool
  alivetime :: int

text \<open>Modelled from the spec: \<open>new Connection()\<close>, a connection not yet opened.\<close>

definition Connection_new :: connection where
  "Connection_new = \<lparr>connected = False, alivetime = 0\<rparr>"

text \<open>
  Modelled from the spec: \<open>connect\<close>, the spec's
  \<open>open(host, port, user, password, database) -> ok/fail\<close>. Whether the session can be
  opened is decided by the database server, so the outcome \<open>ok\<close> is an argument.
\<close>

definition connect :: "connection \<Rightarrow> bool \<Rightarrow> connection" where
  "connect c ok = c\<lparr>connected := ok\<rparr>"

text \<open>
  Modelled from the spec: \<open>refreshAliveTime\<close>, the spec's \<open>refreshIdleTimestamp()\<close>;
  \<open>now\<close> is the reading of the clock.
\<close>

definition refreshAliveTime :: "connection \<Rightarrow> int \<Rightarrow> connection" where
  "refreshAliveTime c now = c\<lparr>alivetime := now\<rparr>"

text \<open>
  Modelled from the spec: \<open>getAliveeTime\<close>, the spec's \<open>idleDurationMs() -> int\<close>: the
  time since the idle-start timestamp, in milliseconds.
\<close>

definition getAliveeTime :: "connection \<Rightarrow> int \<Rightarrow> int" where
  "getAliveeTime c now = now - alivetime c"

text \<open>
  What the pool does to the outside world, in the order in which it happens: the two
  \<open>LOG\<close> lines (the macro comes from public.h, which is not among the sources; it
  prints its message), every \<open>cv.notify_all()\<close>, every \<open>delete p\<close> of a connection
  and the start of the two detached threads.
\<close>

datatype log_msg = ConfigFileMissing | AcquireTimeout

datatype task = Producer | Scanner

datatype effect = Log log_msg | NotifyAll | Delete connection | ThreadStart task

text \<open>
  The members of \<open>ConnectionPool\<close> that the source file reads and writes, and the
  list of effects. The queue \<open>_connectionQue\<close> is a list with its front at the head:
  \<open>push\<close> appends, \<open>pop\<close> removes the head. A \<open>Connection*\<close> is held by exactly one
  owner at a time (the queue or one handle), so the queue holds the connection records
  themselves. The numeric members are integers holding the value assigned to them; the
  counter is incremented up to \<open>_initSize\<close> by the constructor and only below
  \<open>_maxSize\<close> afterwards, and decremented only above \<open>_initSize\<close>, so it does not
  overflow. The one product that can leave the range of a
  32-bit \<open>int\<close> is written out in the scanner.
\<close>

record pool =
  ip :: string
  port :: int
  username :: string
  password :: string
  dbname :: string
  initSize :: int
  maxSize :: int
  maxIdleTime :: int
  connectionTimeout :: int
  connectionQue :: "connection list"
  connectionCnt :: int
  effects :: "effect list"

text \<open>
  Modelled from the spec: the class declaration (CommonConnectionPool.h) is not among
  the sources. The only pool object is the function-local static of
  \<open>getConnectionPool\<close>, whose storage is zero-initialised before the constructor body
  runs: the counters are 0, the strings and the queue are empty.
\<close>

definition static_pool :: pool where
  "static_pool = \<lparr>ip = [], port = 0, username = [], password = [], dbname = [],
     initSize = 0, maxSize = 0, maxIdleTime = 0, connectionTimeout = 0,
     connectionQue = [], connectionCnt = 0, effects = []\<rparr>"

section \<open>loadConfigFile\<close>

text \<open>
  The C library's \<open>atoi\<close>: leading white space, an optional sign, then decimal digits
  up to the first character that is not one. A value outside the range of \<open>int\<close> is
  undefined in C; the model follows the common implementation, the cast
  \<open>(int) strtol(s, NULL, 10)\<close>: \<open>strtol\<close> stops at the two ends of the 64-bit
  \<open>long\<close>, and the cast keeps the low 32 bits as a signed value. So what is stored in
  an \<open>int\<close> member always lies in the range of a 32-bit \<open>int\<close>.
\<close>

definition isspace :: "char \<Rightarrow> bool" where
  "isspace c = (c \<in> set [CHR '' '', CHR 0x09, CHR 0x0A, CHR 0x0B, CHR 0x0C, CHR 0x0D])"

definition isdigit :: "char \<Rightarrow> bool" where
  "isdigit c = (48 \<le> (of_char c :: nat) \<and> (of_char c :: nat) \<le> 57)"

fun atoi_digits :: "int \<Rightarrow> string \<Rightarrow> int" where
  "atoi_digits acc [] = acc"
| "atoi_digits acc (c # cs) =
     (if isdigit c then atoi_digits (acc * 10 + (int (of_char c) - 48)) cs else acc)"

definition to_long :: "int \<Rightarrow> int" where
  "to_long x = max (- 9223372036854775808) (min 9223372036854775807 x)"

definition to_int :: "int \<Rightarrow> int" where
  "to_int x = (x + 2147483648) mod 4294967296 - 2147483648"

definition strtol :: "string \<Rightarrow> int" where
  "strtol s =
     to_long
       (case dropWhile isspace s of
          [] \<Rightarrow> 0
        | c # cs \<Rightarrow>
            if c = CHR ''-'' then - atoi_digits 0 cs
            else if c = CHR ''+'' then atoi_digits 0 cs
            else atoi_digits 0 (c # cs))"

definition atoi :: "string \<Rightarrow> int" where
  "atoi s = to_int (strtol s)"

text \<open>
  \<open>fgets(line, 1024, pf)\<close> reads at most 1023 characters and stops after a newline or
  at the end of the file. \<open>fgets n cs\<close> is the characters read, the rest of the
  stream, and whether the read ran into the end of the file (which sets the stream's
  end-of-file indicator).
\<close>

fun fgets :: "nat \<Rightarrow> string \<Rightarrow> string \<times> string \<times> bool" where
  "fgets 0 cs = ([], cs, False)"
| "fgets (Suc n) [] = ([], [], True)"
| "fgets (Suc n) (c # cs) =
     (if c = CHR 0x0A then ([c], cs, False)
      else (case fgets n cs of (l, r, e) \<Rightarrow> (c # l, r, e)))"

text \<open>\<open>str.find(c, pos)\<close>: the first index at or after \<open>pos\<close> holding \<open>c\<close>;
  \<open>None\<close> is \<open>npos\<close>, which the source stores in an \<open>int\<close> as -1.\<close>

fun find_index_of :: "char \<Rightarrow> string \<Rightarrow> nat option" where
  "find_index_of c [] = None"
| "find_index_of c (x # xs) =
     (if x = c then Some 0 else map_option Suc (find_index_of c xs))"

definition str_find :: "string \<Rightarrow> char \<Rightarrow> nat \<Rightarrow> nat option" where
  "str_find str c pos = map_option (\<lambda>i. pos + i) (find_index_of c (drop pos str))"

text \<open>
  The body of the \<open>while (!feof(pf))\<close> loop once the line is in \<open>str\<close>. With no
  newline after the \<open>=\<close>, \<open>endidx\<close> is -1 and the count \<open>endidx - idx - 1\<close> given to
  \<open>substr\<close> is negative, hence huge as a \<open>size_t\<close>: the value is the rest of the
  string.
\<close>

definition loadConfigFile_line :: "string \<Rightarrow> pool \<Rightarrow> pool" where
  "loadConfigFile_line str p =
     (case str_find str CHR ''='' 0 of
        None \<Rightarrow> p
      | Some idx \<Rightarrow>
          let key = take idx str;
              val = (case str_find str CHR 0x0A idx of
                       None \<Rightarrow> drop (idx + 1) str
                     | Some endidx \<Rightarrow> take (endidx - idx - 1) (drop (idx + 1) str))
          in if key = ''ip'' then p\<lparr>ip := val\<rparr>
             else if key = ''port'' then p\<lparr>port := atoi val\<rparr>
             else if key = ''username'' then p\<lparr>username := val\<rparr>
             else if key = ''password'' then p\<lparr>password := val\<rparr>
             else if key = ''dbname'' then p\<lparr>dbname := val\<rparr>
             else if key = ''initSize'' then p\<lparr>initSize := atoi val\<rparr>
             else if key = ''maxSize'' then p\<lparr>maxSize := atoi val\<rparr>
             else if key = ''maxIdleTime'' then p\<lparr>maxIdleTime := atoi val\<rparr>
             else if key = ''connectionTimeOut'' then p\<lparr>connectionTimeout := atoi val\<rparr>
             else p)"

text \<open>
  The loop over the open file: \<open>cs\<close> is what is left of the stream and \<open>eof\<close> its
  end-of-file indicator. The buffer is zeroed before each \<open>fgets\<close>, and
  \<open>string str = line\<close> copies it up to the first NUL.
\<close>

function loadConfigFile_loop :: "string \<Rightarrow> bool \<Rightarrow> pool \<Rightarrow> pool" where
  "loadConfigFile_loop cs eof p =
     (if eof then p
      else (case fgets 1023 cs of
              (line, rest, eof') \<Rightarrow>
                loadConfigFile_loop rest eof'
                  (loadConfigFile_line (takeWhile (\<lambda>c. c \<noteq> CHR 0x00) line) p)))"
  by pat_completeness auto

lemma fgets_length: "fgets n cs = (l, r, e) \<Longrightarrow> length cs = length l + length r"
  by (induction n cs arbitrary: l r e rule: fgets.induct)
     (auto split: if_splits prod.splits)

lemma fgets_progress:
  "fgets (Suc n) cs = (l, r, e) \<Longrightarrow> (cs \<noteq> [] \<and> length r < length cs) \<or> (cs = [] \<and> e \<and> r = [])"
  by (cases cs) (auto split: if_splits prod.splits dest: fgets_length)

lemma fgets_1023_measure:
  "(l, r, e) = fgets 1023 cs \<Longrightarrow>
     2 * length r + (if e then 0 else 1) < 2 * length cs + (1::nat)"
  using fgets_progress [of 1022 cs l r e] by (auto split: if_splits)

termination loadConfigFile_loop
  by (relation "measure (\<lambda>(cs, eof, p). 2 * length cs + (if eof then 0 else 1))")
     (auto dest: fgets_1023_measure)

text \<open>
  \<open>loadConfigFile\<close>: \<open>file\<close> is the content of mysql.ini, \<open>None\<close> when \<open>fopen\<close>
  returns a null pointer.
\<close>

definition loadConfigFile :: "string option \<Rightarrow> pool \<Rightarrow> bool \<times> pool" where
  "loadConfigFile file p =
     (case file of
        None \<Rightarrow> (False, p\<lparr>effects := effects p @ [Log ConfigFileMissing]\<rparr>)
      | Some cs \<Rightarrow> (True, loadConfigFile_loop cs False p))"

section \<open>The constructor\<close>

text \<open>
  The loop \<open>for (int i = 0; i < _initSize; ++i)\<close>. \<open>env i\<close> is what the outside
  world gives the iteration \<open>i\<close>: whether \<open>connect\<close> succeeds (the source drops its
  result) and the clock read by \<open>refreshAliveTime\<close>.
\<close>

function ConnectionPool_loop :: "int \<Rightarrow> (int \<Rightarrow> bool \<times> int) \<Rightarrow> pool \<Rightarrow> pool" where
  "ConnectionPool_loop i env p =
     (if i < initSize p then
        (let c = refreshAliveTime (connect Connection_new (fst (env i))) (snd (env i))
         in ConnectionPool_loop (i + 1) env
              (p\<lparr>connectionQue := connectionQue p @ [c],
                 connectionCnt := connectionCnt p + 1\<rparr>))
      else p)"
  by pat_completeness auto
termination
  by (relation "measure (\<lambda>(i, env, p). nat (initSize p - i))") auto

text \<open>
  The constructor, run on the zero-initialised static object. When the configuration
  cannot be loaded it returns at once; otherwise it fills the queue and starts the two
  detached threads.
\<close>

definition ConnectionPool :: "string option \<Rightarrow> (int \<Rightarrow> bool \<times> int) \<Rightarrow> pool" where
  "ConnectionPool file env =
     (case loadConfigFile file static_pool of
        (False, p) \<Rightarrow> p
      | (True, p) \<Rightarrow>
          (let p1 = ConnectionPool_loop 0 env p
           in p1\<lparr>effects := effects p1 @ [ThreadStart Producer, ThreadStart Scanner]\<rparr>))"

section \<open>The producer\<close>

text \<open>
  One iteration of the \<open>for (;;)\<close> loop of \<open>produceConnectionTask\<close>, entered with the
  mutex held on the pool \<open>p\<close>. \<open>cv.wait(lock)\<close> gives up the mutex; \<open>ws\<close> lists the
  pool as the thread finds it each time the wait returns, after the other threads have
  run. With the queue still non-empty and no wake-up left the iteration has not come
  back: \<open>None\<close>. \<open>ok\<close> and \<open>now\<close> are the outcome of \<open>connect\<close> and the clock.
\<close>

fun produceConnectionTask_iter :: "pool \<Rightarrow> pool list \<Rightarrow> bool \<Rightarrow> int \<Rightarrow> pool option" where
  "produceConnectionTask_iter p ws ok now =
     (if connectionQue p \<noteq> [] then
        (case ws of
           [] \<Rightarrow> None
         | q # ws' \<Rightarrow> produceConnectionTask_iter q ws' ok now)
      else
        (let p1 = (if connectionCnt p < maxSize p then
                     (let c = refreshAliveTime (connect Connection_new ok) now
                      in p\<lparr>connectionQue := connectionQue p @ [c],
                           connectionCnt := connectionCnt p + 1\<rparr>)
                   else p)
         in Some (p1\<lparr>effects := effects p1 @ [NotifyAll]\<rparr>)))"

section \<open>getConnection and the deleter of its handle\<close>

datatype cv_status = no_timeout | timeout

text \<open>The \<open>shared_ptr<Connection>\<close> that \<open>getConnection\<close> returns.\<close>

datatype handle = Nullptr | Handle connection

text \<open>
  \<open>cv.wait_for(lock, rel_time)\<close> returns \<open>cv_status::timeout\<close> when the relative
  timeout has expired by the time the call returns, and \<open>cv_status::no_timeout\<close>
  otherwise. \<open>rel_time\<close> is in milliseconds; \<open>elapsed\<close> is the number of milliseconds
  the call has taken. A wait of no duration can only time out.
\<close>

definition wait_for :: "int \<Rightarrow> nat \<Rightarrow> cv_status" where
  "wait_for rel_time elapsed = (if rel_time \<le> int elapsed then timeout else no_timeout)"

text \<open>
  \<open>getConnection\<close>, entered with the mutex held on the pool \<open>p\<close>. Each element of
  \<open>ws\<close> is one return of \<open>cv.wait_for\<close>: the milliseconds the wait has taken and the
  pool as the caller finds it then, after the other threads have run. The duration of
  the wait is the \<open>_connectionTimeout\<close> of the pool the caller held when it called
  \<open>wait_for\<close>. \<open>None\<close>: the caller is still waiting when the listed wake-ups are
  used up.
\<close>

fun getConnection :: "pool \<Rightarrow> (nat \<times> pool) list \<Rightarrow> (handle \<times> pool) option" where
  "getConnection p ws =
     (case connectionQue p of
        [] \<Rightarrow>
          (case ws of
             [] \<Rightarrow> None
           | w # ws' \<Rightarrow>
               if wait_for (connectionTimeout p) (fst w) = timeout \<and>
                  connectionQue (snd w) = []
               then Some (Nullptr, (snd w)\<lparr>effects := effects (snd w) @ [Log AcquireTimeout]\<rparr>)
               else getConnection (snd w) ws')
      | c # rest \<Rightarrow>
          Some (Handle c, p\<lparr>connectionQue := rest, effects := effects p @ [NotifyAll]\<rparr>))"

text \<open>
  The custom deleter of the handle (the lambda given to \<open>shared_ptr\<close>), run with the
  mutex held when the last copy of the handle goes away.
\<close>

definition getConnection_deleter :: "pool \<Rightarrow> connection \<Rightarrow> int \<Rightarrow> pool" where
  "getConnection_deleter p pcon now =
     p\<lparr>connectionQue := connectionQue p @ [refreshAliveTime pcon now]\<rparr>"

section \<open>The scanner\<close>

text \<open>
  Where the source has undefined behaviour: \<open>front()\<close> of an empty \<open>std::queue\<close>,
  and the \<open>int\<close> product \<open>_maxIdleTime * 1000\<close> outside the range of a 32-bit \<open>int\<close>.
\<close>

datatype error = EmptyQueueFront | SignedOverflow

definition int_range :: "int \<Rightarrow> bool" where
  "int_range x = (- 2147483648 \<le> x \<and> x \<le> 2147483647)"

text \<open>
  One cycle of \<open>scannerConnectionTask\<close> after its sleep: the \<open>while\<close> loop, run with
  the mutex held. \<open>now\<close> is the clock read by \<open>getAliveeTime\<close>.
\<close>

function scannerConnectionTask_cycle :: "pool \<Rightarrow> int \<Rightarrow> error + pool" where
  "scannerConnectionTask_cycle p now =
     (if connectionCnt p > initSize p then
        (case connectionQue p of
           [] \<Rightarrow> Inl EmptyQueueFront
         | c # rest \<Rightarrow>
             if \<not> int_range (maxIdleTime p * 1000) then Inl SignedOverflow
             else if getAliveeTime c now \<ge> maxIdleTime p * 1000 then
               scannerConnectionTask_cycle
                 (p\<lparr>connectionQue := rest, connectionCnt := connectionCnt p - 1,
                    effects := effects p @ [Delete c]\<rparr>) now
             else Inr p)
      else Inr p)"
  by pat_completeness auto
termination
  by (relation "measure (\<lambda>(p, now). length (connectionQue p))") auto

section \<open>The pool under its threads\<close>

text \<open>
  Every critical section above runs with \<open>_queueMutex\<close> held, so the threads
  interleave whole critical sections. \<open>reachable p0 p\<close>: the pool constructed as \<open>p0\<close>
  can become \<open>p\<close>. The producer and the scanner run only if the constructor started
  them; the pools a waiting thread wakes up to are themselves pools that the other
  threads have reached. A step with undefined behaviour leads nowhere.
\<close>

inductive reachable :: "pool \<Rightarrow> pool \<Rightarrow> bool" for p0 :: pool where
  reach_init: "reachable p0 p0"
| reach_produce:
    "reachable p0 p \<Longrightarrow> ThreadStart Producer \<in> set (effects p0) \<Longrightarrow>
     (\<And>q. q \<in> set ws \<Longrightarrow> reachable p0 q) \<Longrightarrow>
     produceConnectionTask_iter p ws ok now = Some p' \<Longrightarrow> reachable p0 p'"
| reach_scanner:
    "reachable p0 p \<Longrightarrow> ThreadStart Scanner \<in> set (effects p0) \<Longrightarrow>
     scannerConnectionTask_cycle p now = Inr p' \<Longrightarrow> reachable p0 p'"
| reach_getConnection:
    "reachable p0 p \<Longrightarrow> (\<And>q. q \<in> snd ` set ws \<Longrightarrow> reachable p0 q) \<Longrightarrow>
     getConnection p ws = Some (h, p') \<Longrightarrow> reachable p0 p'"
| reach_deleter:
    "reachable p0 p \<Longrightarrow> reachable p0 (getConnection_deleter p pcon now)"

section \<open>Notions used in the statements\<close>

text \<open>The configuration fields of the pool, the ones \<open>loadConfigFile\<close> fills.\<close>

definition configuration ::
  "pool \<Rightarrow> string \<times> int \<times> string \<times> string \<times> string \<times> int \<times> int \<times> int \<times> int" where
  "configuration p = (ip p, port p, username p, password p, dbname p,
     initSize p, maxSize p, maxIdleTime p, connectionTimeout p)"

text \<open>
  The wake-ups after which a \<open>getConnection\<close> that holds the pool \<open>p\<close> with an empty
  queue goes back to waiting: each comes before the timeout of its wait has expired and
  finds the queue empty.
\<close>

fun keeps_waiting :: "pool \<Rightarrow> (nat \<times> pool) list \<Rightarrow> bool" where
  "keeps_waiting p [] = True"
| "keeps_waiting p (w # ws) =
     (wait_for (connectionTimeout p) (fst w) = no_timeout \<and> connectionQue (snd w) = [] \<and>
      keeps_waiting (snd w) ws)"

text \<open>
  A run of the pool used as the concrete input of the examples below: a mysql.ini with
  \<open>initSize=1\<close> and \<open>maxSize=2\<close>, every \<open>connect\<close> succeeding at clock 0, then two
  callers taking a connection each with the producer refilling the queue in between.
\<close>

definition ex_file :: string where
  "ex_file = ''ip=127.0.0.1'' @ [CHR 0x0A] @ ''port=3306'' @ [CHR 0x0A] @
     ''username=root'' @ [CHR 0x0A] @ ''password=123456'' @ [CHR 0x0A] @
     ''dbname=chat'' @ [CHR 0x0A] @ ''initSize=1'' @ [CHR 0x0A] @
     ''maxSize=2'' @ [CHR 0x0A] @ ''maxIdleTime=60'' @ [CHR 0x0A] @
     ''connectionTimeOut=100'' @ [CHR 0x0A]"

definition ex_env :: "int \<Rightarrow> bool \<times> int" where
  "ex_env i = (True, 0)"

definition ex_pool0 :: pool where
  "ex_pool0 = \<lparr>ip = ''127.0.0.1'', port = 3306, username = ''root'',
     password = ''123456'', dbname = ''chat'', initSize = 1, maxSize = 2,
     maxIdleTime = 60, connectionTimeout = 100,
     connectionQue = [\<lparr>connected = True, alivetime = 0\<rparr>], connectionCnt = 1,
     effects = [ThreadStart Producer, ThreadStart Scanner]\<rparr>"

definition ex_pool1 :: pool where
  "ex_pool1 = ex_pool0\<lparr>connectionQue := [],
     effects := [ThreadStart Producer, ThreadStart Scanner, NotifyAll]\<rparr>"

definition ex_pool2 :: pool where
  "ex_pool2 = ex_pool0\<lparr>connectionQue := [\<lparr>connected = True, alivetime = 5\<rparr>],
     connectionCnt := 2,
     effects := [ThreadStart Producer, ThreadStart Scanner, NotifyAll, NotifyAll]\<rparr>"

definition ex_pool3 :: pool where
  "ex_pool3 = ex_pool0\<lparr>connectionQue := [], connectionCnt := 2,
     effects := [ThreadStart Producer, ThreadStart Scanner, NotifyAll, NotifyAll, NotifyAll]\<rparr>"

text \<open>
  What storing a value under a key means, in the words of the spec: the field that the
  key names receives the value, through \<open>atoi\<close> for the numeric fields; a key that
  names no field stores nothing.
\<close>

definition store_config :: "string \<Rightarrow> string \<Rightarrow> pool \<Rightarrow> pool" where
  "store_config key val p =
     (if key = ''ip'' then p\<lparr>ip := val\<rparr>
      else if key = ''port'' then p\<lparr>port := atoi val\<rparr>
      else if key = ''username'' then p\<lparr>username := val\<rparr>
      else if key = ''password'' then p\<lparr>password := val\<rparr>
      else if key = ''dbname'' then p\<lparr>dbname := val\<rparr>
      else if key = ''initSize'' then p\<lparr>initSize := atoi val\<rparr>
      else if key = ''maxSize'' then p\<lparr>maxSize := atoi val\<rparr>
      else if key = ''maxIdleTime'' then p\<lparr>maxIdleTime := atoi val\<rparr>
      else if key = ''connectionTimeOut'' then p\<lparr>connectionTimeout := atoi val\<rparr>
      else p)"

text \<open>A line of mysql.ini that does not fit into the 1024-byte buffer.\<close>

definition ex_long_line :: string where
  "ex_long_line = ''ip='' @ replicate 1021 CHR ''a'' @ [CHR 0x0A]"

text \<open>A mysql.ini whose \<open>initSize\<close> is above its \<open>maxSize\<close>.\<close>

definition ex_file_bad :: string where
  "ex_file_bad = ''initSize=2'' @ [CHR 0x0A] @ ''maxSize=1'' @ [CHR 0x0A]"

section \<open>Unfolding the loops\<close>

declare getConnection.simps [simp del]
declare produceConnectionTask_iter.simps [simp del]
declare scannerConnectionTask_cycle.simps [simp del]
declare ConnectionPool_loop.simps [simp del]
declare loadConfigFile_loop.simps [simp del]

lemma getConnection_empty_Nil:
  "connectionQue p = [] \<Longrightarrow> getConnection p [] = None"
  by (simp add: getConnection.simps)

lemma getConnection_empty_Cons:
  "connectionQue p = [] \<Longrightarrow>
   getConnection p (w # ws) =
     (if wait_for (connectionTimeout p) (fst w) = timeout \<and> connectionQue (snd w) = []
      then Some (Nullptr, (snd w)\<lparr>effects := effects (snd w) @ [Log AcquireTimeout]\<rparr>)
      else getConnection (snd w) ws)"
  by (subst getConnection.simps) simp

lemma getConnection_nonempty:
  "connectionQue p = c # rest \<Longrightarrow>
   getConnection p ws =
     Some (Handle c, p\<lparr>connectionQue := rest, effects := effects p @ [NotifyAll]\<rparr>)"
  by (subst getConnection.simps) simp

lemma getConnection_result:
  "getConnection p ws = Some (h, p') \<Longrightarrow>
   \<exists>q \<in> set (p # map snd ws).
     (h = Nullptr \<and> connectionQue q = [] \<and>
        p' = q\<lparr>effects := effects q @ [Log AcquireTimeout]\<rparr>) \<or>
     (\<exists>c rest. connectionQue q = c # rest \<and> h = Handle c \<and>
        p' = q\<lparr>connectionQue := rest, effects := effects q @ [NotifyAll]\<rparr>)"
proof (induction ws arbitrary: p)
  case Nil
  then show ?case
    by (cases "connectionQue p") (auto simp: getConnection_empty_Nil getConnection_nonempty)
next
  case (Cons w ws)
  show ?case
  proof (cases "connectionQue p")
    case (Cons c rest)
    with Cons.prems show ?thesis
      by (auto simp: getConnection_nonempty)
  next
    case Nil
    show ?thesis
    proof (cases "wait_for (connectionTimeout p) (fst w) = timeout \<and> connectionQue (snd w) = []")
      case True
      with Nil Cons.prems show ?thesis
        by (auto simp: getConnection_empty_Cons)
    next
      case False
      with Nil Cons.prems have "getConnection (snd w) ws = Some (h, p')"
        by (simp add: getConnection_empty_Cons)
      from Cons.IH [OF this] show ?thesis
        by auto
    qed
  qed
qed

lemma produce_empty:
  "connectionQue p = [] \<Longrightarrow>
   produceConnectionTask_iter p ws ok now =
     Some (if connectionCnt p < maxSize p
           then p\<lparr>connectionQue := [refreshAliveTime (connect Connection_new ok) now],
                  connectionCnt := connectionCnt p + 1,
                  effects := effects p @ [NotifyAll]\<rparr>
           else p\<lparr>effects := effects p @ [NotifyAll]\<rparr>)"
  by (subst produceConnectionTask_iter.simps) (simp add: Let_def)

lemma produce_nonempty_Nil:
  "connectionQue p \<noteq> [] \<Longrightarrow> produceConnectionTask_iter p [] ok now = None"
  by (subst produceConnectionTask_iter.simps) simp

lemma produce_nonempty_Cons:
  "connectionQue p \<noteq> [] \<Longrightarrow>
   produceConnectionTask_iter p (q # ws) ok now = produceConnectionTask_iter q ws ok now"
  by (subst produceConnectionTask_iter.simps) simp

lemma produce_result:
  "produceConnectionTask_iter p ws ok now = Some p' \<Longrightarrow>
   \<exists>q \<in> set (p # ws). connectionQue q = [] \<and>
     p' = (if connectionCnt q < maxSize q
           then q\<lparr>connectionQue := [refreshAliveTime (connect Connection_new ok) now],
                  connectionCnt := connectionCnt q + 1,
                  effects := effects q @ [NotifyAll]\<rparr>
           else q\<lparr>effects := effects q @ [NotifyAll]\<rparr>)"
proof (induction ws arbitrary: p)
  case Nil
  then show ?case
    by (cases "connectionQue p = []") (auto simp: produce_empty produce_nonempty_Nil)
next
  case (Cons q ws)
  show ?case
  proof (cases "connectionQue p = []")
    case True
    with Cons.prems show ?thesis
      by (auto simp: produce_empty)
  next
    case False
    with Cons.prems have "produceConnectionTask_iter q ws ok now = Some p'"
      by (simp add: produce_nonempty_Cons)
    from Cons.IH [OF this] show ?thesis
      by auto
  qed
qed

lemma produce_blocked:
  "connectionQue p \<noteq> [] \<Longrightarrow> \<forall>q \<in> set ws. connectionQue q \<noteq> [] \<Longrightarrow>
   produceConnectionTask_iter p ws ok now = None"
  by (induction ws arbitrary: p) (simp_all add: produce_nonempty_Nil produce_nonempty_Cons)

lemma scanner_result:
  "scannerConnectionTask_cycle p now = Inr p' \<Longrightarrow>
   \<exists>k \<le> length (connectionQue p).
     p' = p\<lparr>connectionQue := drop k (connectionQue p),
            connectionCnt := connectionCnt p - int k,
            effects := effects p @ map Delete (take k (connectionQue p))\<rparr> \<and>
     (\<forall>c \<in> set (take k (connectionQue p)). getAliveeTime c now \<ge> maxIdleTime p * 1000) \<and>
     (0 < k \<longrightarrow> initSize p \<le> connectionCnt p - int k) \<and>
     (connectionCnt p - int k \<le> initSize p \<or>
      (k < length (connectionQue p) \<and>
       getAliveeTime (connectionQue p ! k) now < maxIdleTime p * 1000))"
proof (induction p now rule: scannerConnectionTask_cycle.induct)
  case (1 p now)
  show ?case
  proof (cases "connectionCnt p > initSize p")
    case False
    with "1.prems" have "p' = p"
      by (subst (asm) scannerConnectionTask_cycle.simps) simp
    with False show ?thesis
      by (intro exI [of _ 0]) simp
  next
    case gt: True
    show ?thesis
    proof (cases "connectionQue p")
      case Nil
      with gt "1.prems" show ?thesis
        by (subst (asm) scannerConnectionTask_cycle.simps) simp
    next
      case (Cons c rest)
      from gt Cons "1.prems" have rng: "int_range (maxIdleTime p * 1000)"
        by (subst (asm) scannerConnectionTask_cycle.simps) (simp split: if_splits)
      show ?thesis
      proof (cases "getAliveeTime c now \<ge> maxIdleTime p * 1000")
        case False
        with gt Cons rng "1.prems" have "p' = p"
          by (subst (asm) scannerConnectionTask_cycle.simps) simp
        with False Cons show ?thesis
          by (intro exI [of _ 0]) simp
      next
        case True
        define p1 where "p1 = p\<lparr>connectionQue := rest, connectionCnt := connectionCnt p - 1,
                    effects := effects p @ [Delete c]\<rparr>"
        from gt Cons rng True "1.prems" have "scannerConnectionTask_cycle p1 now = Inr p'"
          by (subst (asm) scannerConnectionTask_cycle.simps) (simp add: p1_def)
        from "1.IH" [OF gt Cons _ True, folded p1_def, OF _ this] rng
        obtain k where k: "k \<le> length (connectionQue p1)"
          "p' = p1\<lparr>connectionQue := drop k (connectionQue p1),
            connectionCnt := connectionCnt p1 - int k,
            effects := effects p1 @ map Delete (take k (connectionQue p1))\<rparr>"
          "\<forall>c \<in> set (take k (connectionQue p1)). getAliveeTime c now \<ge> maxIdleTime p1 * 1000"
          "0 < k \<longrightarrow> initSize p1 \<le> connectionCnt p1 - int k"
          "connectionCnt p1 - int k \<le> initSize p1 \<or>
            (k < length (connectionQue p1) \<and>
             getAliveeTime (connectionQue p1 ! k) now < maxIdleTime p1 * 1000)"
          by auto
        show ?thesis
        proof (intro exI [of _ "Suc k"] conjI)
          show "Suc k \<le> length (connectionQue p)"
            using k(1) Cons by (simp add: p1_def)
          show "p' = p\<lparr>connectionQue := drop (Suc k) (connectionQue p),
              connectionCnt := connectionCnt p - int (Suc k),
              effects := effects p @ map Delete (take (Suc k) (connectionQue p))\<rparr>"
            using k(2) Cons by (simp add: p1_def)
          show "\<forall>c \<in> set (take (Suc k) (connectionQue p)). getAliveeTime c now \<ge> maxIdleTime p * 1000"
            using k(3) Cons True by (simp add: p1_def)
          show "0 < Suc k \<longrightarrow> initSize p \<le> connectionCnt p - int (Suc k)"
            using k(4) gt by (cases k) (auto simp: p1_def)
          show "connectionCnt p - int (Suc k) \<le> initSize p \<or>
             (Suc k < length (connectionQue p) \<and>
              getAliveeTime (connectionQue p ! Suc k) now < maxIdleTime p * 1000)"
            using k(5) Cons by (auto simp: p1_def)
        qed
      qed
    qed
  qed
qed

section \<open>The example run\<close>

lemma ConnectionPool_ex: "ConnectionPool (Some ex_file) ex_env = ex_pool0"
  by code_simp

lemma getConnection_ex0:
  "getConnection ex_pool0 [] = Some (Handle \<lparr>connected = True, alivetime = 0\<rparr>, ex_pool1)"
  by (simp add: getConnection.simps ex_pool0_def ex_pool1_def)

lemma produce_ex1: "produceConnectionTask_iter ex_pool1 [] True 5 = Some ex_pool2"
  by (simp add: produceConnectionTask_iter.simps ex_pool0_def ex_pool1_def ex_pool2_def
      connect_def refreshAliveTime_def Connection_new_def)

lemma getConnection_ex2:
  "getConnection ex_pool2 [] = Some (Handle \<lparr>connected = True, alivetime = 5\<rparr>, ex_pool3)"
  by (simp add: getConnection.simps ex_pool0_def ex_pool2_def ex_pool3_def)

lemma ex_pool1_reachable: "reachable ex_pool0 ex_pool1"
  using reach_getConnection [OF reach_init, of "[]", OF _ getConnection_ex0] by simp

lemma ex_pool2_reachable: "reachable ex_pool0 ex_pool2"
  using reach_produce [OF ex_pool1_reachable, of "[]", OF _ _ produce_ex1]
  by (simp add: ex_pool0_def)

lemma ex_pool3_reachable: "reachable ex_pool0 ex_pool3"
  using reach_getConnection [OF ex_pool2_reachable, of "[]", OF _ getConnection_ex2] by simp

section \<open>What each critical section leaves unchanged\<close>

lemma ConnectionPool_None:
  "ConnectionPool None env = static_pool\<lparr>effects := [Log ConfigFileMissing]\<rparr>"
  by (simp add: ConnectionPool_def loadConfigFile_def static_pool_def)

lemma getConnection_frame:
  assumes "getConnection p ws = Some (h, p')"
  shows "\<exists>q \<in> set (p # map snd ws).
         configuration p' = configuration q \<and> connectionCnt p' = connectionCnt q"
proof -
  from getConnection_result [OF assms] obtain q where q: "q \<in> set (p # map snd ws)"
    and d: "p' = q\<lparr>effects := effects q @ [Log AcquireTimeout]\<rparr> \<or>
      (\<exists>rest. p' = q\<lparr>connectionQue := rest, effects := effects q @ [NotifyAll]\<rparr>)"
    by blast
  from d have "configuration p' = configuration q \<and> connectionCnt p' = connectionCnt q"
    by (auto simp: configuration_def)
  with q show ?thesis
    by blast
qed

lemma produce_frame:
  assumes "produceConnectionTask_iter p ws ok now = Some p'"
  shows "\<exists>q \<in> set (p # ws). connectionQue q = [] \<and> configuration p' = configuration q \<and>
           length (connectionQue p') \<le> 1 \<and>
           connectionCnt q \<le> connectionCnt p' \<and> connectionCnt p' \<le> connectionCnt q + 1 \<and>
           (connectionCnt q < maxSize q \<or> connectionCnt p' = connectionCnt q)"
proof -
  from produce_result [OF assms] obtain q where q: "q \<in> set (p # ws)" "connectionQue q = []"
    "p' = (if connectionCnt q < maxSize q
           then q\<lparr>connectionQue := [refreshAliveTime (connect Connection_new ok) now],
                  connectionCnt := connectionCnt q + 1,
                  effects := effects q @ [NotifyAll]\<rparr>
           else q\<lparr>effects := effects q @ [NotifyAll]\<rparr>)"
    by blast
  have "configuration p' = configuration q \<and> length (connectionQue p') \<le> 1 \<and>
         connectionCnt q \<le> connectionCnt p' \<and> connectionCnt p' \<le> connectionCnt q + 1 \<and>
         (connectionCnt q < maxSize q \<or> connectionCnt p' = connectionCnt q)"
    using q(2,3) by (simp add: configuration_def)
  with q(1,2) show ?thesis
    by blast
qed

lemma scanner_frame:
  assumes "scannerConnectionTask_cycle p now = Inr p'"
  shows "configuration p' = configuration p" and "connectionCnt p' \<le> connectionCnt p"
    and "initSize p \<le> connectionCnt p \<Longrightarrow> initSize p \<le> connectionCnt p'"
proof -
  from scanner_result [OF assms] obtain k where k:
    "p' = p\<lparr>connectionQue := drop k (connectionQue p),
            connectionCnt := connectionCnt p - int k,
            effects := effects p @ map Delete (take k (connectionQue p))\<rparr>"
    "0 < k \<longrightarrow> initSize p \<le> connectionCnt p - int k"
    by blast
  from k(1) show "configuration p' = configuration p"
    by (simp add: configuration_def)
  from k(1) show "connectionCnt p' \<le> connectionCnt p"
    by simp
  from k show "initSize p \<le> connectionCnt p \<Longrightarrow> initSize p \<le> connectionCnt p'"
    by (cases k) auto
qed

section \<open>The counter under all interleavings\<close>

lemma configuration_sizes:
  "configuration a = configuration b \<Longrightarrow> initSize a = initSize b \<and> maxSize a = maxSize b"
  by (simp add: configuration_def)

lemma loadConfigFile_line_keeps:
  "connectionQue (loadConfigFile_line str p) = connectionQue p \<and>
   connectionCnt (loadConfigFile_line str p) = connectionCnt p \<and>
   effects (loadConfigFile_line str p) = effects p"
  by (simp add: loadConfigFile_line_def Let_def split: option.splits)

lemma loadConfigFile_loop_keeps:
  "connectionQue (loadConfigFile_loop cs eof p) = connectionQue p \<and>
   connectionCnt (loadConfigFile_loop cs eof p) = connectionCnt p \<and>
   effects (loadConfigFile_loop cs eof p) = effects p"
proof (induction cs eof p rule: loadConfigFile_loop.induct)
  case (1 cs eof p)
  show ?case
  proof (cases eof)
    case True
    then show ?thesis
      by (simp add: loadConfigFile_loop.simps)
  next
    case False
    obtain line rest eof' where f: "fgets 1023 cs = (line, rest, eof')"
      by (cases "fgets 1023 cs") auto
    from "1.IH" [OF False f [symmetric] refl] False f show ?thesis
      by (subst (1 2 3) loadConfigFile_loop.simps) (simp add: loadConfigFile_line_keeps)
  qed
qed

lemma ConnectionPool_loop_result:
  "configuration (ConnectionPool_loop i env p) = configuration p \<and>
   connectionCnt (ConnectionPool_loop i env p) = connectionCnt p + max 0 (initSize p - i) \<and>
   length (connectionQue (ConnectionPool_loop i env p)) =
     length (connectionQue p) + nat (initSize p - i) \<and>
   effects (ConnectionPool_loop i env p) = effects p"
proof (induction i env p rule: ConnectionPool_loop.induct)
  case (1 i env p)
  show ?case
  proof (cases "i < initSize p")
    case False
    then show ?thesis
      by (subst (1 2 3 4) ConnectionPool_loop.simps) simp
  next
    case True
    from "1.IH" [OF True refl] True show ?thesis
      by (subst (1 2 3 4) ConnectionPool_loop.simps)
         (simp add: Let_def configuration_def nat_diff_distrib')
  qed
qed

lemma ConnectionPool_count:
  "connectionCnt (ConnectionPool ini env) = max 0 (initSize (ConnectionPool ini env)) \<and>
   length (connectionQue (ConnectionPool ini env)) = nat (initSize (ConnectionPool ini env))"
proof (cases ini)
  case None
  then show ?thesis
    by (simp add: ConnectionPool_None static_pool_def)
next
  case (Some cs)
  let ?p = "loadConfigFile_loop cs False static_pool"
  have k: "connectionQue ?p = [] \<and> connectionCnt ?p = 0"
    using loadConfigFile_loop_keeps [of cs False static_pool] by (simp add: static_pool_def)
  have c: "initSize (ConnectionPool_loop 0 env ?p) = initSize ?p"
    using ConnectionPool_loop_result [of 0 env ?p] by (simp add: configuration_def)
  from Some k c ConnectionPool_loop_result [of 0 env ?p] show ?thesis
    by (simp add: ConnectionPool_def loadConfigFile_def Let_def)
qed

lemma reachable_bounded:
  assumes "reachable p0 p"
    and "initSize p0 \<le> connectionCnt p0" and "connectionCnt p0 \<le> maxSize p0"
  shows "configuration p = configuration p0 \<and>
         initSize p0 \<le> connectionCnt p \<and> connectionCnt p \<le> maxSize p0"
  using assms(1)
proof (induction rule: reachable.induct)
  case reach_init
  from assms(2,3) show ?case
    by simp
next
  case (reach_produce p ws ok now p')
  from produce_frame [OF reach_produce.hyps(4)] obtain q where q: "q \<in> set (p # ws)"
    "configuration p' = configuration q"
    "connectionCnt q \<le> connectionCnt p'" "connectionCnt p' \<le> connectionCnt q + 1"
    "connectionCnt q < maxSize q \<or> connectionCnt p' = connectionCnt q"
    by blast
  from q(1) have "q = p \<or> q \<in> set ws"
    by simp
  with reach_produce.IH
  have i: "configuration q = configuration p0 \<and>
         initSize p0 \<le> connectionCnt q \<and> connectionCnt q \<le> maxSize p0"
    by blast
  then have "maxSize q = maxSize p0"
    by (blast dest: configuration_sizes)
  with i q(3-5) have b: "initSize p0 \<le> connectionCnt p' \<and> connectionCnt p' \<le> maxSize p0"
    by linarith
  from q(2) i have "configuration p' = configuration p0"
    by (rule trans [OF _ conjunct1])
  with b show ?case
    by blast
next
  case (reach_scanner p now p')
  note s = scanner_frame [OF reach_scanner.hyps(3)]
  from reach_scanner.IH have c: "configuration p = configuration p0"
    and l: "initSize p0 \<le> connectionCnt p" and u: "connectionCnt p \<le> maxSize p0"
    by blast+
  from c have e: "initSize p = initSize p0"
    by (blast dest: configuration_sizes)
  from s(1) c have c': "configuration p' = configuration p0"
    by (rule trans)
  from s(3) l e have l': "initSize p0 \<le> connectionCnt p'"
    by simp
  from s(2) u have u': "connectionCnt p' \<le> maxSize p0"
    by (rule order_trans)
  from c' l' u' show ?case
    by blast
next
  case (reach_getConnection p ws h p')
  from getConnection_frame [OF reach_getConnection.hyps(3)] obtain q
    where q: "q \<in> set (p # map snd ws)"
      "configuration p' = configuration q \<and> connectionCnt p' = connectionCnt q"
    by blast
  from q(1) have "q = p \<or> q \<in> snd ` set ws"
    by auto
  with reach_getConnection.IH
  have "configuration q = configuration p0 \<and>
         initSize p0 \<le> connectionCnt q \<and> connectionCnt q \<le> maxSize p0"
    by blast
  with q(2) show ?case
    by (metis (no_types))
next
  case (reach_deleter p pcon now)
  have "configuration (getConnection_deleter p pcon now) = configuration p"
    and "connectionCnt (getConnection_deleter p pcon now) = connectionCnt p"
    by (simp_all add: getConnection_deleter_def configuration_def)
  with reach_deleter.IH show ?case
    by (metis (no_types))
qed

section \<open>Reading the configuration line by line\<close>

lemma find_index_of_absent: "c \<notin> set xs \<Longrightarrow> find_index_of c xs = None"
  by (induction xs) auto

lemma find_index_of_first: "c \<notin> set k \<Longrightarrow> find_index_of c (k @ c # rest) = Some (length k)"
  by (induction k) auto

lemma loadConfigFile_line_no_eq: "CHR ''='' \<notin> set str \<Longrightarrow> loadConfigFile_line str p = p"
  by (simp add: loadConfigFile_line_def str_find_def find_index_of_absent)

lemma loadConfigFile_line_key_value_nl:
  assumes "CHR ''='' \<notin> set k" and "CHR 0x0A \<notin> set v"
  shows "loadConfigFile_line (k @ CHR ''='' # v @ [CHR 0x0A]) p = store_config k v p"
proof -
  have a: "str_find (k @ CHR ''='' # v @ [CHR 0x0A]) CHR ''='' 0 = Some (length k)"
    using assms(1) by (simp add: str_find_def find_index_of_first)
  have "find_index_of CHR 0x0A ((CHR ''='' # v) @ CHR 0x0A # []) = Some (length (CHR ''='' # v))"
    using assms(2) by (intro find_index_of_first) simp
  then have b: "str_find (k @ CHR ''='' # v @ [CHR 0x0A]) CHR 0x0A (length k) =
      Some (length k + Suc (length v))"
    by (simp add: str_find_def)
  show ?thesis
    by (simp add: loadConfigFile_line_def a b store_config_def Let_def)
qed

lemma loadConfigFile_line_key_value:
  assumes "CHR ''='' \<notin> set k" and "CHR 0x0A \<notin> set v"
  shows "loadConfigFile_line (k @ CHR ''='' # v) p = store_config k v p"
proof -
  have a: "str_find (k @ CHR ''='' # v) CHR ''='' 0 = Some (length k)"
    using assms(1) by (simp add: str_find_def find_index_of_first)
  have "find_index_of CHR 0x0A (CHR ''='' # v) = None"
    using assms(2) by (intro find_index_of_absent) simp
  then have b: "str_find (k @ CHR ''='' # v) CHR 0x0A (length k) = None"
    by (simp add: str_find_def)
  show ?thesis
    by (simp add: loadConfigFile_line_def a b store_config_def Let_def)
qed

lemma fgets_long:
  "CHR 0x0A \<notin> set (take n l) \<Longrightarrow> n \<le> length l \<Longrightarrow>
   fgets n (l @ rest) = (take n l, drop n l @ rest, False)"
proof (induction n arbitrary: l)
  case 0
  then show ?case by simp
next
  case (Suc n)
  then obtain c l' where l: "l = c # l'"
    by (cases l) auto
  with Suc.prems have "CHR 0x0A \<notin> set (take n l')" "n \<le> length l'" "c \<noteq> CHR 0x0A"
    by auto
  with Suc.IH [of l'] l show ?case
    by simp
qed

lemma fgets_line:
  "CHR 0x0A \<notin> set l \<Longrightarrow> length l < n \<Longrightarrow>
   fgets n (l @ CHR 0x0A # rest) = (l @ [CHR 0x0A], rest, False)"
proof (induction n arbitrary: l)
  case 0
  then show ?case by simp
next
  case (Suc n)
  show ?case
  proof (cases l)
    case Nil
    then show ?thesis by simp
  next
    case (Cons c l')
    with Suc.prems have "CHR 0x0A \<notin> set l'" "length l' < n" "c \<noteq> CHR 0x0A"
      by auto
    with Suc.IH [of l'] Cons show ?thesis
      by simp
  qed
qed

lemma fgets_append:
  "fgets n pre = (l, r, False) \<Longrightarrow> fgets n (pre @ rest) = (l, r @ rest, False)"
proof (induction n pre arbitrary: l r rule: fgets.induct)
  case (1 cs)
  then show ?case by simp
next
  case (2 n)
  then show ?case by simp
next
  case (3 n c cs)
  show ?case
  proof (cases "c = CHR 0x0A")
    case True
    with "3.prems" show ?thesis by auto
  next
    case False
    obtain l' r' e' where f: "fgets n cs = (l', r', e')"
      by (cases "fgets n cs") auto
    with False "3.prems" have e: "e' = False" "l = c # l'" "r = r'"
      by auto
    from "3.IH" [OF False, of l' r'] f e have "fgets n (cs @ rest) = (l', r' @ rest, False)"
      by simp
    with False e show ?thesis
      by simp
  qed
qed

lemma fgets_nl_terminated:
  "pre \<noteq> [] \<Longrightarrow> last pre = CHR 0x0A \<Longrightarrow>
   \<exists>l r. fgets (Suc n) pre = (l, r, False) \<and> l \<noteq> [] \<and> pre = l @ r \<and>
         (r = [] \<or> last r = CHR 0x0A)"
proof (induction n arbitrary: pre)
  case 0
  then obtain c cs where p: "pre = c # cs"
    by (cases pre) auto
  with "0.prems" show ?case
    by (cases "c = CHR 0x0A") (auto split: if_splits)
next
  case (Suc n)
  then obtain c cs where p: "pre = c # cs"
    by (cases pre) auto
  show ?case
  proof (cases "c = CHR 0x0A")
    case True
    with p Suc.prems show ?thesis
      by (auto split: if_splits)
  next
    case False
    with p Suc.prems have cs: "cs \<noteq> []" "last cs = CHR 0x0A"
      by (auto split: if_splits)
    from Suc.IH [OF cs] obtain l r where lr: "fgets (Suc n) cs = (l, r, False)" "l \<noteq> []"
      "cs = l @ r" "r = [] \<or> last r = CHR 0x0A"
      by blast
    with False p show ?thesis
      by simp
  qed
qed

lemma loadConfigFile_loop_eof: "loadConfigFile_loop cs True p = p"
  by (simp add: loadConfigFile_loop.simps)

lemma loadConfigFile_loop_step:
  "fgets 1023 cs = (line, rest, eof') \<Longrightarrow>
   loadConfigFile_loop cs False p =
     loadConfigFile_loop rest eof' (loadConfigFile_line (takeWhile (\<lambda>c. c \<noteq> CHR 0x00) line) p)"
  by (subst loadConfigFile_loop.simps) simp

lemma loadConfigFile_loop_Nil: "loadConfigFile_loop [] False p = p"
proof -
  have "fgets 1023 [] = ([], [], True)"
    using fgets.simps(2) [of 1022] by simp
  from loadConfigFile_loop_step [OF this] show ?thesis
    by (simp add: loadConfigFile_loop_eof loadConfigFile_line_no_eq)
qed

lemma loadConfigFile_loop_prefix:
  "pre = [] \<or> last pre = CHR 0x0A \<Longrightarrow>
   loadConfigFile_loop (pre @ rest) False p =
     loadConfigFile_loop rest False (loadConfigFile_loop pre False p)"
proof (induction "length pre" arbitrary: pre p rule: less_induct)
  case less
  show ?case
  proof (cases "pre = []")
    case True
    then show ?thesis
      by (simp add: loadConfigFile_loop_Nil)
  next
    case False
    with less.prems have "last pre = CHR 0x0A"
      by simp
    from fgets_nl_terminated [OF False this, of 1022] obtain l r
      where lr: "fgets 1023 pre = (l, r, False)" "l \<noteq> []" "pre = l @ r"
        "r = [] \<or> last r = CHR 0x0A"
      by auto
    let ?p = "loadConfigFile_line (takeWhile (\<lambda>c. c \<noteq> CHR 0x00) l) p"
    from lr(2,3) have "length r < length pre"
      by simp
    from less.hyps [OF this lr(4), of ?p]
    have "loadConfigFile_loop (r @ rest) False ?p =
        loadConfigFile_loop rest False (loadConfigFile_loop r False ?p)" .
    with loadConfigFile_loop_step [OF fgets_append [OF lr(1), of rest], of p]
      loadConfigFile_loop_step [OF lr(1), of p]
    show ?thesis
      by simp
  qed
qed

lemma loadConfigFile_loop_skip:
  "CHR ''='' \<notin> set l \<Longrightarrow> CHR 0x0A \<notin> set l \<Longrightarrow>
   loadConfigFile_loop (l @ CHR 0x0A # rest) False p = loadConfigFile_loop rest False p"
proof (induction "length l" arbitrary: l rule: less_induct)
  case less
  show ?case
  proof (cases "length l < 1023")
    case True
    have "CHR ''='' \<notin> set (takeWhile (\<lambda>c. c \<noteq> CHR 0x00) (l @ [CHR 0x0A]))"
      using less.prems(1) by (auto dest: set_takeWhileD)
    with loadConfigFile_loop_step [OF fgets_line [OF less.prems(2) True, of rest], of p]
    show ?thesis
      by (simp add: loadConfigFile_line_no_eq)
  next
    case False
    then have n: "1023 \<le> length l"
      by simp
    from less.prems(2) have "CHR 0x0A \<notin> set (take 1023 l)"
      by (auto dest: in_set_takeD)
    from fgets_long [OF this n, of "CHR 0x0A # rest"]
    have f: "fgets 1023 (l @ CHR 0x0A # rest) =
        (take 1023 l, drop 1023 l @ CHR 0x0A # rest, False)"
      by simp
    have "CHR ''='' \<notin> set (takeWhile (\<lambda>c. c \<noteq> CHR 0x00) (take 1023 l))"
      using less.prems(1) by (auto dest: set_takeWhileD in_set_takeD)
    with loadConfigFile_loop_step [OF f, of p]
    have s: "loadConfigFile_loop (l @ CHR 0x0A # rest) False p =
        loadConfigFile_loop (drop 1023 l @ CHR 0x0A # rest) False p"
      by (simp add: loadConfigFile_line_no_eq)
    have "length (drop 1023 l) < length l"
      using n by simp
    moreover have "CHR ''='' \<notin> set (drop 1023 l)" "CHR 0x0A \<notin> set (drop 1023 l)"
      using less.prems by (auto dest: in_set_dropD)
    ultimately have "loadConfigFile_loop (drop 1023 l @ CHR 0x0A # rest) False p =
        loadConfigFile_loop rest False p"
      by (rule less.hyps)
    with s show ?thesis
      by simp
  qed
qed

lemma loadConfigFile_loop_key_value:
  assumes "CHR ''='' \<notin> set k" and "CHR 0x0A \<notin> set (k @ v)" and "CHR 0x00 \<notin> set (k @ v)"
    and "length (k @ CHR ''='' # v) \<le> 1023"
  shows "loadConfigFile_loop (k @ CHR ''='' # v @ CHR 0x0A # rest) False p =
     loadConfigFile_loop rest False (store_config k v p)"
proof (cases "length (k @ CHR ''='' # v) < 1023")
  case True
  from assms(2) have "CHR 0x0A \<notin> set (k @ CHR ''='' # v)"
    by simp
  from fgets_line [OF this True, of rest]
  have f: "fgets 1023 (k @ CHR ''='' # v @ CHR 0x0A # rest) =
      (k @ CHR ''='' # v @ [CHR 0x0A], rest, False)"
    by simp
  have "\<forall>c \<in> set (k @ CHR ''='' # v @ [CHR 0x0A]). c \<noteq> CHR 0x00"
    using assms(3) by auto
  then have t: "takeWhile (\<lambda>c. c \<noteq> CHR 0x00) (k @ CHR ''='' # v @ [CHR 0x0A]) =
      k @ CHR ''='' # v @ [CHR 0x0A]"
    by (simp only: takeWhile_eq_all_conv)
  from assms(1,2) loadConfigFile_loop_step [OF f, of p] show ?thesis
    by (simp only: t) (simp add: loadConfigFile_line_key_value_nl)
next
  case False
  with assms(4) have n: "length (k @ CHR ''='' # v) = 1023"
    by simp
  from assms(2) have "CHR 0x0A \<notin> set (take 1023 (k @ CHR ''='' # v))"
    using n by simp
  from fgets_long [OF this, of "CHR 0x0A # rest"] n
  have f: "fgets 1023 (k @ CHR ''='' # v @ CHR 0x0A # rest) =
      (k @ CHR ''='' # v, CHR 0x0A # rest, False)"
    by simp
  have "\<forall>c \<in> set (k @ CHR ''='' # v). c \<noteq> CHR 0x00"
    using assms(3) by auto
  then have t: "takeWhile (\<lambda>c. c \<noteq> CHR 0x00) (k @ CHR ''='' # v) = k @ CHR ''='' # v"
    by (simp only: takeWhile_eq_all_conv)
  from assms(1,2) loadConfigFile_loop_step [OF f, of p]
  have "loadConfigFile_loop (k @ CHR ''='' # v @ CHR 0x0A # rest) False p =
      loadConfigFile_loop ([] @ CHR 0x0A # rest) False (store_config k v p)"
    by (simp only: t) (simp add: loadConfigFile_line_key_value)
  also have "\<dots> = loadConfigFile_loop rest False (store_config k v p)"
    by (rule loadConfigFile_loop_skip) simp_all
  finally show ?thesis .
qed

section \<open>The waits of getConnection and of the producer\<close>

lemma wait_for_timeout_iff: "wait_for t e = timeout \<longleftrightarrow> t \<le> int e"
  by (simp add: wait_for_def)

lemma wait_for_no_timeout_iff: "wait_for t e = no_timeout \<longleftrightarrow> int e < t"
  by (simp add: wait_for_def)

lemma wait_for_not_timeout: "wait_for t e \<noteq> timeout \<longleftrightarrow> wait_for t e = no_timeout"
  by (simp add: wait_for_def)

lemma getConnection_waiting_prefix:
  "connectionQue p = [] \<Longrightarrow> keeps_waiting p pre \<Longrightarrow>
   getConnection p (pre @ ws) = getConnection (last (p # map snd pre)) ws \<and>
   connectionQue (last (p # map snd pre)) = []"
proof (induction pre arbitrary: p)
  case Nil
  then show ?case by simp
next
  case (Cons w pre)
  from Cons.prems(2) have w: "wait_for (connectionTimeout p) (fst w) = no_timeout"
    "connectionQue (snd w) = []" "keeps_waiting (snd w) pre"
    by simp_all
  from Cons.prems(1) w(1) have "getConnection p ((w # pre) @ ws) = getConnection (snd w) (pre @ ws)"
    by (simp add: getConnection_empty_Cons)
  with Cons.IH [OF w(2,3)] show ?case
    by simp
qed

lemma getConnection_None_iff:
  "getConnection p ws = None \<longleftrightarrow> connectionQue p = [] \<and> keeps_waiting p ws"
proof (induction ws arbitrary: p)
  case Nil
  show ?case
    by (cases "connectionQue p") (simp_all add: getConnection_empty_Nil getConnection_nonempty)
next
  case (Cons w ws)
  show ?case
  proof (cases "connectionQue p")
    case (Cons c rest)
    then show ?thesis
      by (simp add: getConnection_nonempty)
  next
    case Nil
    show ?thesis
    proof (cases "wait_for (connectionTimeout p) (fst w) = timeout")
      case True
      with Nil show ?thesis
        by (cases "connectionQue (snd w)")
           (simp_all add: getConnection_empty_Cons getConnection_nonempty)
    next
      case False
      then have "wait_for (connectionTimeout p) (fst w) = no_timeout"
        by (simp add: wait_for_not_timeout)
      with Nil False Cons.IH [of "snd w"] show ?thesis
        by (simp add: getConnection_empty_Cons)
    qed
  qed
qed

lemma getConnection_Some_split:
  "getConnection p ws = Some (h, p') \<Longrightarrow> connectionQue p = [] \<Longrightarrow>
   \<exists>pre e q post. ws = pre @ (e, q) # post \<and> keeps_waiting p pre \<and>
     (case connectionQue q of
        [] \<Rightarrow> connectionTimeout (last (p # map snd pre)) \<le> int e \<and> h = Nullptr \<and>
              p' = q\<lparr>effects := effects q @ [Log AcquireTimeout]\<rparr>
      | c # rest \<Rightarrow> h = Handle c \<and>
              p' = q\<lparr>connectionQue := rest, effects := effects q @ [NotifyAll]\<rparr>)"
proof (induction ws arbitrary: p)
  case Nil
  then show ?case
    by (simp add: getConnection_empty_Nil)
next
  case (Cons w ws)
  obtain e q where w: "w = (e, q)"
    by (cases w)
  show ?case
  proof (cases "connectionQue q")
    case (Cons c rest)
    with Cons.prems w have "h = Handle c \<and>
        p' = q\<lparr>connectionQue := rest, effects := effects q @ [NotifyAll]\<rparr>"
      by (simp add: getConnection_empty_Cons getConnection_nonempty)
    with Cons w have "w # ws = [] @ (e, q) # ws \<and> keeps_waiting p [] \<and>
      (case connectionQue q of
        [] \<Rightarrow> connectionTimeout (last (p # map snd [])) \<le> int e \<and> h = Nullptr \<and>
              p' = q\<lparr>effects := effects q @ [Log AcquireTimeout]\<rparr>
      | c # rest \<Rightarrow> h = Handle c \<and>
              p' = q\<lparr>connectionQue := rest, effects := effects q @ [NotifyAll]\<rparr>)"
      by simp
    then show ?thesis
      by blast
  next
    case Nil
    show ?thesis
    proof (cases "wait_for (connectionTimeout p) e = timeout")
      case True
      with Nil Cons.prems w have "h = Nullptr \<and>
          p' = q\<lparr>effects := effects q @ [Log AcquireTimeout]\<rparr>"
        by (simp add: getConnection_empty_Cons)
      with Nil True w have "w # ws = [] @ (e, q) # ws \<and> keeps_waiting p [] \<and>
        (case connectionQue q of
          [] \<Rightarrow> connectionTimeout (last (p # map snd [])) \<le> int e \<and> h = Nullptr \<and>
                p' = q\<lparr>effects := effects q @ [Log AcquireTimeout]\<rparr>
        | c # rest \<Rightarrow> h = Handle c \<and>
                p' = q\<lparr>connectionQue := rest, effects := effects q @ [NotifyAll]\<rparr>)"
        by (simp add: wait_for_timeout_iff)
      then show ?thesis
        by blast
    next
      case False
      then have nt: "wait_for (connectionTimeout p) e = no_timeout"
        by (simp add: wait_for_not_timeout)
      from False Nil Cons.prems w have "getConnection q ws = Some (h, p')"
        by (simp add: getConnection_empty_Cons)
      from Cons.IH [OF this Nil] obtain pre e' q' post where s: "ws = pre @ (e', q') # post"
        "keeps_waiting q pre"
        "(case connectionQue q' of
          [] \<Rightarrow> connectionTimeout (last (q # map snd pre)) \<le> int e' \<and> h = Nullptr \<and>
                p' = q'\<lparr>effects := effects q' @ [Log AcquireTimeout]\<rparr>
        | c # rest \<Rightarrow> h = Handle c \<and>
                p' = q'\<lparr>connectionQue := rest, effects := effects q' @ [NotifyAll]\<rparr>)"
        by blast
      from s(1) w have "w # ws = ((e, q) # pre) @ (e', q') # post"
        by simp
      moreover from s(2) nt Nil have "keeps_waiting p ((e, q) # pre)"
        by simp
      moreover have "last (p # map snd ((e, q) # pre)) = last (q # map snd pre)"
        by simp
      ultimately show ?thesis
        using s(3) by metis
    qed
  qed
qed

lemma produce_waiting_prefix:
  "\<forall>r \<in> set pre. connectionQue r \<noteq> [] \<Longrightarrow> p # ws = pre @ q # post \<Longrightarrow>
   produceConnectionTask_iter p ws ok now = produceConnectionTask_iter q post ok now"
proof (induction pre arbitrary: p ws)
  case Nil
  then show ?case by simp
next
  case (Cons r pre)
  from Cons.prems have p: "p = r" "connectionQue p \<noteq> []" and ws: "ws = pre @ q # post"
    by simp_all
  show ?case
  proof (cases pre)
    case Nil
    with p ws show ?thesis
      by (simp add: produce_nonempty_Cons)
  next
    case (Cons r' pre')
    with ws have e: "ws = r' # (pre' @ q # post)"
      by simp
    with p have "produceConnectionTask_iter p ws ok now =
        produceConnectionTask_iter r' (pre' @ q # post) ok now"
      by (simp add: produce_nonempty_Cons)
    also have "\<dots> = produceConnectionTask_iter q post ok now"
      using Cons.prems(1) Cons by (intro Cons.IH) simp_all
    finally show ?thesis .
  qed
qed

lemma produce_Some_split:
  "produceConnectionTask_iter p ws ok now = Some p' \<Longrightarrow>
   \<exists>pre q post. p # ws = pre @ q # post \<and> (\<forall>r \<in> set pre. connectionQue r \<noteq> []) \<and>
     connectionQue q = [] \<and>
     p' = (if connectionCnt q < maxSize q
           then q\<lparr>connectionQue := [refreshAliveTime (connect Connection_new ok) now],
                  connectionCnt := connectionCnt q + 1,
                  effects := effects q @ [NotifyAll]\<rparr>
           else q\<lparr>effects := effects q @ [NotifyAll]\<rparr>)"
proof (induction ws arbitrary: p)
  case Nil
  then have "connectionQue p = []"
    by (cases "connectionQue p = []") (simp_all add: produce_nonempty_Nil)
  with Nil have "[p] = [] @ p # [] \<and> (\<forall>r \<in> set []. connectionQue r \<noteq> []) \<and>
     connectionQue p = [] \<and>
     p' = (if connectionCnt p < maxSize p
           then p\<lparr>connectionQue := [refreshAliveTime (connect Connection_new ok) now],
                  connectionCnt := connectionCnt p + 1,
                  effects := effects p @ [NotifyAll]\<rparr>
           else p\<lparr>effects := effects p @ [NotifyAll]\<rparr>)"
    by (simp add: produce_empty)
  then show ?case
    by blast
next
  case (Cons q ws)
  show ?case
  proof (cases "connectionQue p = []")
    case True
    with Cons.prems have "p # q # ws = [] @ p # (q # ws) \<and>
      (\<forall>r \<in> set []. connectionQue r \<noteq> []) \<and> connectionQue p = [] \<and>
      p' = (if connectionCnt p < maxSize p
           then p\<lparr>connectionQue := [refreshAliveTime (connect Connection_new ok) now],
                  connectionCnt := connectionCnt p + 1,
                  effects := effects p @ [NotifyAll]\<rparr>
           else p\<lparr>effects := effects p @ [NotifyAll]\<rparr>)"
      by (simp add: produce_empty)
    then show ?thesis
      by blast
  next
    case False
    with Cons.prems have "produceConnectionTask_iter q ws ok now = Some p'"
      by (simp add: produce_nonempty_Cons)
    from Cons.IH [OF this] obtain pre q' post where s: "q # ws = pre @ q' # post"
      "\<forall>r \<in> set pre. connectionQue r \<noteq> []" "connectionQue q' = []"
      "p' = (if connectionCnt q' < maxSize q'
           then q'\<lparr>connectionQue := [refreshAliveTime (connect Connection_new ok) now],
                  connectionCnt := connectionCnt q' + 1,
                  effects := effects q' @ [NotifyAll]\<rparr>
           else q'\<lparr>effects := effects q' @ [NotifyAll]\<rparr>)"
      by blast
    from s(1) have "p # q # ws = (p # pre) @ q' # post"
      by simp
    moreover from s(2) False have "\<forall>r \<in> set (p # pre). connectionQue r \<noteq> []"
      by simp
    ultimately show ?thesis
      using s(3,4) by blast
  qed
qed

section \<open>Numbers and over-long lines of the configuration\<close>

lemma atoi_int_range: "int_range (atoi s)"
proof -
  have "0 \<le> (strtol s + 2147483648) mod 4294967296"
    and "(strtol s + 2147483648) mod 4294967296 < 4294967296"
    by simp_all
  then show ?thesis
    by (simp add: atoi_def to_int_def int_range_def)
qed

lemma loadConfigFile_loop_long:
  assumes "CHR 0x0A \<notin> set l" and "1023 \<le> length l"
  shows "loadConfigFile_loop (l @ CHR 0x0A # rest) False p =
     loadConfigFile_loop (drop 1023 l @ CHR 0x0A # rest) False
       (loadConfigFile_line (takeWhile (\<lambda>c. c \<noteq> CHR 0x00) (take 1023 l)) p)"
proof -
  from assms(1) have "CHR 0x0A \<notin> set (take 1023 l)"
    by (auto dest: in_set_takeD)
  from fgets_long [OF this assms(2), of "CHR 0x0A # rest"]
  have "fgets 1023 (l @ CHR 0x0A # rest) =
      (take 1023 l, drop 1023 l @ CHR 0x0A # rest, False)" .
  from loadConfigFile_loop_step [OF this, of p] show ?thesis .
qed

section \<open>The claims\<close>

subsection \<open>C1: the bounds of the counter\<close>

text \<open>
  C1 (as the code has it): the constructor creates exactly \<open>initSize\<close> connections
  (none when \<open>initSize\<close> is not positive). When the loaded configuration has
  \<open>initSize \<le> maxSize\<close> and \<open>0 \<le> maxSize\<close>, every pool reachable from the constructed
  one by critical sections of the producer, the scanner, \<open>getConnection\<close> and the
  deleter, none of them running into undefined behaviour, keeps the configuration and
  has \<open>initSize \<le> _connectionCnt \<le> maxSize\<close>.
\<close>

theorem pool_size_bounded:
  "connectionCnt (ConnectionPool ini env) = max 0 (initSize (ConnectionPool ini env)) \<and>
   length (connectionQue (ConnectionPool ini env)) = nat (initSize (ConnectionPool ini env)) \<and>
   (reachable (ConnectionPool ini env) p \<and>
    initSize (ConnectionPool ini env) \<le> maxSize (ConnectionPool ini env) \<and>
    0 \<le> maxSize (ConnectionPool ini env) \<longrightarrow>
      configuration p = configuration (ConnectionPool ini env) \<and>
      initSize p \<le> connectionCnt p \<and> connectionCnt p \<le> maxSize p)"
proof (intro conjI impI)
  show "connectionCnt (ConnectionPool ini env) = max 0 (initSize (ConnectionPool ini env))"
    using ConnectionPool_count [of ini env] by blast
  show "length (connectionQue (ConnectionPool ini env)) = nat (initSize (ConnectionPool ini env))"
    using ConnectionPool_count [of ini env] by blast
next
  let ?p0 = "ConnectionPool ini env"
  assume a: "reachable ?p0 p \<and> initSize ?p0 \<le> maxSize ?p0 \<and> 0 \<le> maxSize ?p0"
  have c: "connectionCnt ?p0 = max 0 (initSize ?p0)"
    using ConnectionPool_count [of ini env] by blast
  from a c have b: "initSize ?p0 \<le> connectionCnt ?p0" "connectionCnt ?p0 \<le> maxSize ?p0"
    by auto
  from a have "reachable ?p0 p"
    by blast
  from reachable_bounded [OF this b]
  have r: "configuration p = configuration ?p0 \<and>
         initSize ?p0 \<le> connectionCnt p \<and> connectionCnt p \<le> maxSize ?p0" .
  then have "initSize p = initSize ?p0 \<and> maxSize p = maxSize ?p0"
    by (blast dest: configuration_sizes)
  with r show "configuration p = configuration ?p0"
    and "initSize p \<le> connectionCnt p" and "connectionCnt p \<le> maxSize p"
    by simp_all
qed

theorem pool_size_bounded_witness:
  "connectionCnt (ConnectionPool (Some ex_file) ex_env) = 1 \<and>
   length (connectionQue (ConnectionPool (Some ex_file) ex_env)) = 1 \<and>
   reachable (ConnectionPool (Some ex_file) ex_env) ex_pool3 \<and>
   initSize (ConnectionPool (Some ex_file) ex_env) \<le> maxSize (ConnectionPool (Some ex_file) ex_env) \<and>
   0 \<le> maxSize (ConnectionPool (Some ex_file) ex_env) \<and>
   configuration ex_pool3 = configuration (ConnectionPool (Some ex_file) ex_env) \<and>
   initSize ex_pool3 \<le> connectionCnt ex_pool3 \<and> connectionCnt ex_pool3 \<le> maxSize ex_pool3"
proof -
  have h: "reachable (ConnectionPool (Some ex_file) ex_env) ex_pool3 \<and>
    initSize (ConnectionPool (Some ex_file) ex_env) \<le> maxSize (ConnectionPool (Some ex_file) ex_env) \<and>
    0 \<le> maxSize (ConnectionPool (Some ex_file) ex_env)"
    using ex_pool3_reachable by (simp add: ConnectionPool_ex) (simp add: ex_pool0_def)
  note t = pool_size_bounded [where ini = "Some ex_file" and env = ex_env and p = ex_pool3]
  from t have a: "connectionCnt (ConnectionPool (Some ex_file) ex_env) = 1"
    by (simp add: ConnectionPool_ex) (simp add: ex_pool0_def)
  from t have b: "length (connectionQue (ConnectionPool (Some ex_file) ex_env)) = 1"
    by (simp add: ConnectionPool_ex) (simp add: ex_pool0_def)
  from t [THEN conjunct2, THEN conjunct2] h
  have c: "configuration ex_pool3 = configuration (ConnectionPool (Some ex_file) ex_env) \<and>
   initSize ex_pool3 \<le> connectionCnt ex_pool3 \<and> connectionCnt ex_pool3 \<le> maxSize ex_pool3"
    by blast
  from h a b c show ?thesis
    by simp
qed

text \<open>
  C1 as the spec states it fails: nothing compares \<open>initSize\<close> with \<open>maxSize\<close>. With
  \<open>initSize=2\<close> and \<open>maxSize=1\<close> in mysql.ini the constructor leaves two live
  connections, above \<open>maxSize\<close>.
\<close>

theorem pool_size_counterexample:
  "reachable (ConnectionPool (Some ex_file_bad) ex_env) (ConnectionPool (Some ex_file_bad) ex_env) \<and>
   connectionCnt (ConnectionPool (Some ex_file_bad) ex_env) = 2 \<and>
   maxSize (ConnectionPool (Some ex_file_bad) ex_env) = 1 \<and>
   \<not> connectionCnt (ConnectionPool (Some ex_file_bad) ex_env)
       \<le> maxSize (ConnectionPool (Some ex_file_bad) ex_env)"
proof -
  have a: "connectionCnt (ConnectionPool (Some ex_file_bad) ex_env) = 2"
    by code_simp
  have b: "maxSize (ConnectionPool (Some ex_file_bad) ex_env) = 1"
    by code_simp
  from a b reach_init [of "ConnectionPool (Some ex_file_bad) ex_env"] show ?thesis
    by simp
qed

subsection \<open>C2: what a timed-out getConnection returns\<close>

text \<open>
  C2 (as the code has it): when a wait of \<open>getConnection\<close> times out and the queue is
  still empty, whichever wait of the call it is, the call logs the failure and returns a
  null \<open>shared_ptr\<close>; the return type has no other failure value. A null handle is
  returned in that situation only: the caller entered on an empty queue, went back to
  waiting after every earlier wake-up, and then a wait expired on an empty queue.
\<close>

theorem getConnection_timeout_nullptr:
  "(connectionQue p = [] \<and> keeps_waiting p pre \<and>
    connectionTimeout (last (p # map snd pre)) \<le> int e \<and> connectionQue q = [] \<longrightarrow>
      getConnection p (pre @ (e, q) # post) =
        Some (Nullptr, q\<lparr>effects := effects q @ [Log AcquireTimeout]\<rparr>)) \<and>
   (getConnection p ws = Some (Nullptr, p') \<longrightarrow>
      connectionQue p = [] \<and>
      (\<exists>pre' e' q' post'. ws = pre' @ (e', q') # post' \<and> keeps_waiting p pre' \<and>
         connectionTimeout (last (p # map snd pre')) \<le> int e' \<and> connectionQue q' = [] \<and>
         p' = q'\<lparr>effects := effects q' @ [Log AcquireTimeout]\<rparr>))"
proof (intro conjI impI)
  assume a: "connectionQue p = [] \<and> keeps_waiting p pre \<and>
    connectionTimeout (last (p # map snd pre)) \<le> int e \<and> connectionQue q = []"
  then have "getConnection p (pre @ (e, q) # post) =
      getConnection (last (p # map snd pre)) ((e, q) # post)"
    and "connectionQue (last (p # map snd pre)) = []"
    using getConnection_waiting_prefix [of p pre "(e, q) # post"] by blast+
  with a show "getConnection p (pre @ (e, q) # post) =
        Some (Nullptr, q\<lparr>effects := effects q @ [Log AcquireTimeout]\<rparr>)"
    by (simp add: getConnection_empty_Cons wait_for_timeout_iff)
next
  assume g: "getConnection p ws = Some (Nullptr, p')"
  then show e: "connectionQue p = []"
    by (cases "connectionQue p") (simp_all add: getConnection_nonempty)
  from getConnection_Some_split [OF g e] obtain pre' e' q' post'
    where s: "ws = pre' @ (e', q') # post'" "keeps_waiting p pre'"
      "(case connectionQue q' of
        [] \<Rightarrow> connectionTimeout (last (p # map snd pre')) \<le> int e' \<and> Nullptr = Nullptr \<and>
              p' = q'\<lparr>effects := effects q' @ [Log AcquireTimeout]\<rparr>
      | c # rest \<Rightarrow> Nullptr = Handle c \<and>
              p' = q'\<lparr>connectionQue := rest, effects := effects q' @ [NotifyAll]\<rparr>)"
    by blast
  from s(3) have "connectionTimeout (last (p # map snd pre')) \<le> int e' \<and>
      connectionQue q' = [] \<and> p' = q'\<lparr>effects := effects q' @ [Log AcquireTimeout]\<rparr>"
    by (cases "connectionQue q'") simp_all
  with s(1,2) show "\<exists>pre' e' q' post'. ws = pre' @ (e', q') # post' \<and> keeps_waiting p pre' \<and>
         connectionTimeout (last (p # map snd pre')) \<le> int e' \<and> connectionQue q' = [] \<and>
         p' = q'\<lparr>effects := effects q' @ [Log AcquireTimeout]\<rparr>"
    by blast
qed

theorem getConnection_timeout_nullptr_witness:
  "connectionQue ex_pool3 = [] \<and> keeps_waiting ex_pool3 [(40, ex_pool3)] \<and>
   connectionTimeout (last (ex_pool3 # map snd [(40, ex_pool3)])) \<le> int 100 \<and>
   getConnection ex_pool3 ([(40, ex_pool3)] @ (100, ex_pool3) # []) =
     Some (Nullptr, ex_pool3\<lparr>effects := effects ex_pool3 @ [Log AcquireTimeout]\<rparr>) \<and>
   (\<exists>pre' e' q' post'. [(40, ex_pool3)] @ (100, ex_pool3) # [] = pre' @ (e', q') # post' \<and>
      keeps_waiting ex_pool3 pre' \<and>
      connectionTimeout (last (ex_pool3 # map snd pre')) \<le> int e' \<and> connectionQue q' = [] \<and>
      ex_pool3\<lparr>effects := effects ex_pool3 @ [Log AcquireTimeout]\<rparr> =
        q'\<lparr>effects := effects q' @ [Log AcquireTimeout]\<rparr>)"
proof -
  have h: "connectionQue ex_pool3 = [] \<and> keeps_waiting ex_pool3 [(40, ex_pool3)] \<and>
    connectionTimeout (last (ex_pool3 # map snd [(40, ex_pool3)])) \<le> int 100 \<and>
    connectionQue ex_pool3 = []"
    by (simp add: ex_pool3_def ex_pool0_def wait_for_def)
  from getConnection_timeout_nullptr
    [where p = ex_pool3 and pre = "[(40, ex_pool3)]" and e = 100 and q = ex_pool3
       and post = "[]", THEN conjunct1, THEN mp, OF h]
  have a: "getConnection ex_pool3 ([(40, ex_pool3)] @ (100, ex_pool3) # []) =
     Some (Nullptr, ex_pool3\<lparr>effects := effects ex_pool3 @ [Log AcquireTimeout]\<rparr>)" .
  from getConnection_timeout_nullptr
    [where p = ex_pool3 and ws = "[(40, ex_pool3)] @ (100, ex_pool3) # []"
       and p' = "ex_pool3\<lparr>effects := effects ex_pool3 @ [Log AcquireTimeout]\<rparr>",
       THEN conjunct2, THEN mp, OF a]
  have b: "\<exists>pre' e' q' post'. [(40, ex_pool3)] @ (100, ex_pool3) # [] = pre' @ (e', q') # post' \<and>
      keeps_waiting ex_pool3 pre' \<and>
      connectionTimeout (last (ex_pool3 # map snd pre')) \<le> int e' \<and> connectionQue q' = [] \<and>
      ex_pool3\<lparr>effects := effects ex_pool3 @ [Log AcquireTimeout]\<rparr> =
        q'\<lparr>effects := effects q' @ [Log AcquireTimeout]\<rparr>"
    by (rule conjunct2)
  from h a b show ?thesis
    by blast
qed

text \<open>
  C2 as the spec states it fails: with both connections of the example pool checked
  out, a caller whose first wait ends after 40 ms on an empty queue and whose second
  wait runs the full 100 ms of the timeout gets the null handle from \<open>getConnection\<close>.
\<close>

theorem getConnection_timeout_counterexample:
  "getConnection ex_pool3 [(40, ex_pool3), (100, ex_pool3)] =
     Some (Nullptr, ex_pool3\<lparr>effects := effects ex_pool3 @ [Log AcquireTimeout]\<rparr>)"
  by (simp add: getConnection_empty_Cons wait_for_def ex_pool3_def ex_pool0_def)

subsection \<open>C3: the release of a handle\<close>

text \<open>
  C3: the deleter of a handle refreshes the idle-start timestamp of the connection and
  appends it to the tail of the queue, but it does not call \<open>cv.notify_all()\<close>. At the
  example pool with both connections checked out, giving one back at clock 9 leaves the
  list of effects as it was: no waiter is signalled.
\<close>

theorem deleter_does_not_notify:
  "getConnection_deleter ex_pool3 \<lparr>connected = True, alivetime = 0\<rparr> 9 =
     ex_pool3\<lparr>connectionQue := [\<lparr>connected = True, alivetime = 9\<rparr>]\<rparr> \<and>
   effects (getConnection_deleter ex_pool3 \<lparr>connected = True, alivetime = 0\<rparr> 9) =
     effects ex_pool3"
  by (simp add: getConnection_deleter_def refreshAliveTime_def ex_pool3_def)

subsection \<open>C4: a failed connect in the producer\<close>

text \<open>
  C4 (as the code has it): the producer drops the result of \<open>connect\<close>. When opening
  the connection fails on an empty queue below \<open>maxSize\<close>, the iteration still appends
  the unconnected record and adds one to the counter, and the next \<open>getConnection\<close>
  hands that record out as an ordinary handle.
\<close>

theorem producer_ignores_connect_failure:
  "connectionQue p = [] \<and> connectionCnt p < maxSize p \<longrightarrow>
     (\<exists>p'. produceConnectionTask_iter p ws False now = Some p' \<and>
        connectionCnt p' = connectionCnt p + 1 \<and>
        connectionQue p' = [\<lparr>connected = False, alivetime = now\<rparr>] \<and>
        fst (the (getConnection p' ws')) = Handle \<lparr>connected = False, alivetime = now\<rparr>)"
  by (simp add: produce_empty getConnection_nonempty connect_def refreshAliveTime_def
      Connection_new_def)

theorem producer_ignores_connect_failure_witness:
  "connectionQue ex_pool1 = [] \<and> connectionCnt ex_pool1 < maxSize ex_pool1 \<and>
   (\<exists>p'. produceConnectionTask_iter ex_pool1 [] False 5 = Some p' \<and>
        connectionCnt p' = connectionCnt ex_pool1 + 1 \<and>
        connectionQue p' = [\<lparr>connected = False, alivetime = 5\<rparr>] \<and>
        fst (the (getConnection p' [])) = Handle \<lparr>connected = False, alivetime = 5\<rparr>)"
proof -
  have h: "connectionQue ex_pool1 = [] \<and> connectionCnt ex_pool1 < maxSize ex_pool1"
    by (simp add: ex_pool1_def ex_pool0_def)
  with producer_ignores_connect_failure [where p = ex_pool1 and ws = "[]" and now = 5 and ws' = "[]"]
  show ?thesis
    by blast
qed

text \<open>
  C4 as the spec states it fails: at the example pool with its queue empty, an
  iteration of the producer whose \<open>connect\<close> fails raises the counter from 1 to 2 and
  puts the unconnected record into the queue.
\<close>

theorem producer_connect_failure_counterexample:
  "produceConnectionTask_iter ex_pool1 [] False 5 =
     Some (ex_pool1\<lparr>connectionQue := [\<lparr>connected = False, alivetime = 5\<rparr>],
             connectionCnt := 2, effects := effects ex_pool1 @ [NotifyAll]\<rparr>) \<and>
   connectionCnt ex_pool1 = 1"
  by (simp add: produce_empty connect_def refreshAliveTime_def Connection_new_def
      ex_pool1_def ex_pool0_def)

subsection \<open>C5: the cycle of the scanner\<close>

text \<open>
  C5: with more live connections than \<open>initSize\<close> and all of them checked out, the
  queue is empty and the scanner's loop still takes \<open>front()\<close>: the cycle has undefined
  behaviour instead of stopping. The example pool with both connections checked out is
  such a state, and the pool reaches it from its constructor.
\<close>

theorem scanner_front_of_empty_queue:
  "ConnectionPool (Some ex_file) ex_env = ex_pool0 \<and>
   reachable ex_pool0 ex_pool3 \<and>
   connectionQue ex_pool3 = [] \<and> connectionCnt ex_pool3 = 2 \<and> initSize ex_pool3 = 1 \<and>
   scannerConnectionTask_cycle ex_pool3 60000 = Inl EmptyQueueFront"
  using ConnectionPool_ex ex_pool3_reachable
  by (simp add: scannerConnectionTask_cycle.simps ex_pool3_def ex_pool0_def)

subsection \<open>C6: a timeout is checked against the queue\<close>

text \<open>
  C6: a wait of \<open>getConnection\<close> that returns while the queue is non-empty, whichever
  wait of the call it is and whether or not its timeout has expired, does not fail:
  \<open>getConnection\<close> checks the queue again and hands out its head. The null handle is
  returned only at a wake-up that finds the queue empty, and the queue is empty when it
  is returned.
\<close>

theorem getConnection_timeout_rechecks_queue:
  "(connectionQue p = [] \<and> keeps_waiting p pre \<and> connectionQue q = c # rest \<longrightarrow>
      getConnection p (pre @ (e, q) # post) =
        Some (Handle c, q\<lparr>connectionQue := rest, effects := effects q @ [NotifyAll]\<rparr>)) \<and>
   (getConnection p ws = Some (Nullptr, p') \<longrightarrow>
      (\<exists>pre' e' q' post'. ws = pre' @ (e', q') # post' \<and> keeps_waiting p pre' \<and>
         connectionQue q' = [] \<and>
         p' = q'\<lparr>effects := effects q' @ [Log AcquireTimeout]\<rparr>) \<and>
      connectionQue p' = [])"
proof (intro conjI impI)
  assume a: "connectionQue p = [] \<and> keeps_waiting p pre \<and> connectionQue q = c # rest"
  then have "getConnection p (pre @ (e, q) # post) =
      getConnection (last (p # map snd pre)) ((e, q) # post)"
    and "connectionQue (last (p # map snd pre)) = []"
    using getConnection_waiting_prefix [of p pre "(e, q) # post"] by blast+
  with a show "getConnection p (pre @ (e, q) # post) =
        Some (Handle c, q\<lparr>connectionQue := rest, effects := effects q @ [NotifyAll]\<rparr>)"
    by (simp add: getConnection_empty_Cons getConnection_nonempty)
next
  assume g: "getConnection p ws = Some (Nullptr, p')"
  then have e: "connectionQue p = []"
    by (cases "connectionQue p") (simp_all add: getConnection_nonempty)
  from getConnection_Some_split [OF g e] obtain pre' e' q' post'
    where s: "ws = pre' @ (e', q') # post'" "keeps_waiting p pre'"
      "(case connectionQue q' of
        [] \<Rightarrow> connectionTimeout (last (p # map snd pre')) \<le> int e' \<and> Nullptr = Nullptr \<and>
              p' = q'\<lparr>effects := effects q' @ [Log AcquireTimeout]\<rparr>
      | c # rest \<Rightarrow> Nullptr = Handle c \<and>
              p' = q'\<lparr>connectionQue := rest, effects := effects q' @ [NotifyAll]\<rparr>)"
    by blast
  from s(3) have t: "connectionQue q' = [] \<and>
      p' = q'\<lparr>effects := effects q' @ [Log AcquireTimeout]\<rparr>"
    by (cases "connectionQue q'") simp_all
  with s(1,2) show "\<exists>pre' e' q' post'. ws = pre' @ (e', q') # post' \<and> keeps_waiting p pre' \<and>
         connectionQue q' = [] \<and>
         p' = q'\<lparr>effects := effects q' @ [Log AcquireTimeout]\<rparr>"
    by blast
  from t show "connectionQue p' = []"
    by simp
qed

theorem getConnection_timeout_rechecks_queue_witness:
  "connectionQue ex_pool3 = [] \<and> keeps_waiting ex_pool3 [(40, ex_pool3)] \<and>
   connectionTimeout ex_pool3 \<le> int 100 \<and>
   connectionQue (getConnection_deleter ex_pool3 \<lparr>connected = True, alivetime = 0\<rparr> 9) =
     [\<lparr>connected = True, alivetime = 9\<rparr>] \<and>
   getConnection ex_pool3
     ([(40, ex_pool3)] @
      (100, getConnection_deleter ex_pool3 \<lparr>connected = True, alivetime = 0\<rparr> 9) # []) =
     Some (Handle \<lparr>connected = True, alivetime = 9\<rparr>,
           ex_pool3\<lparr>effects := effects ex_pool3 @ [NotifyAll]\<rparr>) \<and>
   getConnection ex_pool3 [(40, ex_pool3), (100, ex_pool3)] =
     Some (Nullptr, ex_pool3\<lparr>effects := effects ex_pool3 @ [Log AcquireTimeout]\<rparr>) \<and>
   connectionQue (ex_pool3\<lparr>effects := effects ex_pool3 @ [Log AcquireTimeout]\<rparr>) = []"
proof -
  let ?q = "getConnection_deleter ex_pool3 \<lparr>connected = True, alivetime = 0\<rparr> 9"
  have h0: "connectionTimeout ex_pool3 \<le> int 100"
    by (simp add: ex_pool3_def ex_pool0_def)
  have h2: "connectionQue ?q = [\<lparr>connected = True, alivetime = 9\<rparr>]"
    by (simp add: getConnection_deleter_def ex_pool3_def refreshAliveTime_def)
  have h: "connectionQue ex_pool3 = [] \<and> keeps_waiting ex_pool3 [(40, ex_pool3)] \<and>
    connectionQue ?q = \<lparr>connected = True, alivetime = 9\<rparr> # []"
    using h2 by (simp add: ex_pool3_def ex_pool0_def wait_for_def)
  have e: "?q\<lparr>connectionQue := [], effects := effects ?q @ [NotifyAll]\<rparr> =
      ex_pool3\<lparr>effects := effects ex_pool3 @ [NotifyAll]\<rparr>"
    by (simp add: getConnection_deleter_def ex_pool3_def)
  from getConnection_timeout_rechecks_queue
    [where p = ex_pool3 and pre = "[(40, ex_pool3)]" and q = ?q
       and c = "\<lparr>connected = True, alivetime = 9\<rparr>" and rest = "[]" and e = 100
       and post = "[]", THEN conjunct1, THEN mp, OF h] e
  have a: "getConnection ex_pool3 ([(40, ex_pool3)] @ (100, ?q) # []) =
     Some (Handle \<lparr>connected = True, alivetime = 9\<rparr>,
           ex_pool3\<lparr>effects := effects ex_pool3 @ [NotifyAll]\<rparr>)"
    by simp
  have b: "getConnection ex_pool3 [(40, ex_pool3), (100, ex_pool3)] =
     Some (Nullptr, ex_pool3\<lparr>effects := effects ex_pool3 @ [Log AcquireTimeout]\<rparr>)"
    by (simp add: getConnection_empty_Cons wait_for_def ex_pool3_def ex_pool0_def)
  from getConnection_timeout_rechecks_queue
    [where p = ex_pool3 and ws = "[(40, ex_pool3), (100, ex_pool3)]"
       and p' = "ex_pool3\<lparr>effects := effects ex_pool3 @ [Log AcquireTimeout]\<rparr>",
       THEN conjunct2, THEN mp, OF b]
  have c: "connectionQue (ex_pool3\<lparr>effects := effects ex_pool3 @ [Log AcquireTimeout]\<rparr>) = []"
    by (rule conjunct2)
  from h h0 h2 a b c show ?thesis
    by blast
qed

subsection \<open>C7: one connection per iteration of the producer\<close>

text \<open>
  C7: an iteration of the producer waits while the queue is non-empty and produces
  nothing. At the first pool it finds with an empty queue, at its entry or at a
  wake-up, and with the counter below \<open>maxSize\<close>, it creates exactly one connection:
  it calls \<open>connect\<close>, stamps it idle, appends it to the queue, adds one to the counter
  and notifies the waiters. An iteration that completes has done so at the first pool
  with an empty queue, and has done exactly that (at \<open>maxSize\<close> it only notifies).
\<close>

theorem producer_creates_one_when_empty:
  "(p # ws = pre @ q # post \<and> (\<forall>r \<in> set pre. connectionQue r \<noteq> []) \<and>
    connectionQue q = [] \<and> connectionCnt q < maxSize q \<longrightarrow>
      produceConnectionTask_iter p ws ok now =
        Some (q\<lparr>connectionQue := [\<lparr>connected = ok, alivetime = now\<rparr>],
                connectionCnt := connectionCnt q + 1,
                effects := effects q @ [NotifyAll]\<rparr>)) \<and>
   ((\<forall>r \<in> set (p # ws). connectionQue r \<noteq> []) \<longrightarrow>
      produceConnectionTask_iter p ws ok now = None) \<and>
   (produceConnectionTask_iter p ws ok now = Some p' \<longrightarrow>
      (\<exists>pre' q' post'. p # ws = pre' @ q' # post' \<and>
         (\<forall>r \<in> set pre'. connectionQue r \<noteq> []) \<and> connectionQue q' = [] \<and>
         p' = (if connectionCnt q' < maxSize q'
               then q'\<lparr>connectionQue := [\<lparr>connected = ok, alivetime = now\<rparr>],
                       connectionCnt := connectionCnt q' + 1,
                       effects := effects q' @ [NotifyAll]\<rparr>
               else q'\<lparr>effects := effects q' @ [NotifyAll]\<rparr>)))"
proof (intro conjI impI)
  assume a: "p # ws = pre @ q # post \<and> (\<forall>r \<in> set pre. connectionQue r \<noteq> []) \<and>
    connectionQue q = [] \<and> connectionCnt q < maxSize q"
  then have "produceConnectionTask_iter p ws ok now = produceConnectionTask_iter q post ok now"
    using produce_waiting_prefix [of pre p ws q post ok now] by blast
  with a show "produceConnectionTask_iter p ws ok now =
        Some (q\<lparr>connectionQue := [\<lparr>connected = ok, alivetime = now\<rparr>],
                connectionCnt := connectionCnt q + 1,
                effects := effects q @ [NotifyAll]\<rparr>)"
    by (simp add: produce_empty connect_def refreshAliveTime_def Connection_new_def)
next
  assume "\<forall>r \<in> set (p # ws). connectionQue r \<noteq> []"
  then show "produceConnectionTask_iter p ws ok now = None"
    by (simp add: produce_blocked)
next
  assume r: "produceConnectionTask_iter p ws ok now = Some p'"
  have nc: "refreshAliveTime (connect Connection_new ok) now = \<lparr>connected = ok, alivetime = now\<rparr>"
    by (simp add: connect_def refreshAliveTime_def Connection_new_def)
  from produce_Some_split [OF r, unfolded nc]
  show "\<exists>pre' q' post'. p # ws = pre' @ q' # post' \<and>
         (\<forall>r \<in> set pre'. connectionQue r \<noteq> []) \<and> connectionQue q' = [] \<and>
         p' = (if connectionCnt q' < maxSize q'
               then q'\<lparr>connectionQue := [\<lparr>connected = ok, alivetime = now\<rparr>],
                       connectionCnt := connectionCnt q' + 1,
                       effects := effects q' @ [NotifyAll]\<rparr>
               else q'\<lparr>effects := effects q' @ [NotifyAll]\<rparr>)" .
qed

theorem producer_creates_one_when_empty_witness:
  "ex_pool0 # [ex_pool1] = [ex_pool0] @ ex_pool1 # [] \<and> connectionQue ex_pool0 \<noteq> [] \<and>
   connectionQue ex_pool1 = [] \<and> connectionCnt ex_pool1 < maxSize ex_pool1 \<and>
   produceConnectionTask_iter ex_pool0 [ex_pool1] True 5 = Some ex_pool2 \<and>
   produceConnectionTask_iter ex_pool1 [] True 5 = Some ex_pool2 \<and>
   connectionQue ex_pool2 \<noteq> [] \<and>
   produceConnectionTask_iter ex_pool2 [ex_pool0] True 7 = None \<and>
   (\<exists>pre' q' post'. ex_pool0 # [ex_pool1] = pre' @ q' # post' \<and>
      connectionQue q' = [] \<and>
      ex_pool2 = (if connectionCnt q' < maxSize q'
               then q'\<lparr>connectionQue := [\<lparr>connected = True, alivetime = 5\<rparr>],
                       connectionCnt := connectionCnt q' + 1,
                       effects := effects q' @ [NotifyAll]\<rparr>
               else q'\<lparr>effects := effects q' @ [NotifyAll]\<rparr>))"
proof -
  have h0: "connectionQue ex_pool0 \<noteq> []" "connectionQue ex_pool2 \<noteq> []"
    by (simp_all add: ex_pool0_def ex_pool2_def)
  have h1: "connectionQue ex_pool1 = []" "connectionCnt ex_pool1 < maxSize ex_pool1"
    by (simp_all add: ex_pool1_def ex_pool0_def)
  have e: "ex_pool1\<lparr>connectionQue := [\<lparr>connected = True, alivetime = 5\<rparr>],
                connectionCnt := connectionCnt ex_pool1 + 1,
                effects := effects ex_pool1 @ [NotifyAll]\<rparr> = ex_pool2"
    by (simp add: ex_pool1_def ex_pool2_def ex_pool0_def)
  have ha: "ex_pool0 # [ex_pool1] = [ex_pool0] @ ex_pool1 # [] \<and>
    (\<forall>r \<in> set [ex_pool0]. connectionQue r \<noteq> []) \<and>
    connectionQue ex_pool1 = [] \<and> connectionCnt ex_pool1 < maxSize ex_pool1"
    using h0 h1 by simp
  have hb: "ex_pool1 # [] = [] @ ex_pool1 # [] \<and>
    (\<forall>r \<in> set []. connectionQue r \<noteq> []) \<and>
    connectionQue ex_pool1 = [] \<and> connectionCnt ex_pool1 < maxSize ex_pool1"
    using h1 by simp
  have hc: "\<forall>r \<in> set (ex_pool2 # [ex_pool0]). connectionQue r \<noteq> []"
    using h0 by simp
  from producer_creates_one_when_empty
    [where p = ex_pool0 and ws = "[ex_pool1]" and pre = "[ex_pool0]" and q = ex_pool1
       and post = "[]" and ok = True and now = 5, THEN conjunct1, THEN mp, OF ha] e
  have a: "produceConnectionTask_iter ex_pool0 [ex_pool1] True 5 = Some ex_pool2"
    by simp
  from producer_creates_one_when_empty
    [where p = ex_pool1 and ws = "[]" and pre = "[]" and q = ex_pool1
       and post = "[]" and ok = True and now = 5, THEN conjunct1, THEN mp, OF hb] e
  have b: "produceConnectionTask_iter ex_pool1 [] True 5 = Some ex_pool2"
    by simp
  from producer_creates_one_when_empty
    [where p = ex_pool2 and ws = "[ex_pool0]" and ok = True and now = 7,
       THEN conjunct2, THEN conjunct1, THEN mp, OF hc]
  have c: "produceConnectionTask_iter ex_pool2 [ex_pool0] True 7 = None" .
  from producer_creates_one_when_empty
    [where p = ex_pool0 and ws = "[ex_pool1]" and ok = True and now = 5 and p' = ex_pool2,
       THEN conjunct2, THEN conjunct2, THEN mp, OF a]
  have d: "\<exists>pre' q' post'. ex_pool0 # [ex_pool1] = pre' @ q' # post' \<and>
      connectionQue q' = [] \<and>
      ex_pool2 = (if connectionCnt q' < maxSize q'
               then q'\<lparr>connectionQue := [\<lparr>connected = True, alivetime = 5\<rparr>],
                       connectionCnt := connectionCnt q' + 1,
                       effects := effects q' @ [NotifyAll]\<rparr>
               else q'\<lparr>effects := effects q' @ [NotifyAll]\<rparr>)"
    by blast
  from h0 h1 a b c d show ?thesis
    by simp
qed

subsection \<open>C8: a missing configuration file\<close>

text \<open>
  C8: when mysql.ini cannot be opened, \<open>loadConfigFile\<close> logs it and returns false,
  and the constructor returns at once: no connection is created, no thread is started,
  the configuration fields keep their zero-initialised values. Every later
  \<open>getConnection\<close> fails at once: the queue is empty, and the wait it enters has the
  duration 0 of the \<open>_connectionTimeout\<close> that was never loaded, so the first return of
  \<open>wait_for\<close> is a timeout whatever time has passed; the call logs it and returns the
  null handle. That holds again on the pool it leaves, after any number of such calls.
\<close>

theorem missing_config_pool_fails_fast:
  "loadConfigFile None p = (False, p\<lparr>effects := effects p @ [Log ConfigFileMissing]\<rparr>) \<and>
   ConnectionPool None env = static_pool\<lparr>effects := [Log ConfigFileMissing]\<rparr> \<and>
   connectionQue (ConnectionPool None env) = [] \<and>
   connectionCnt (ConnectionPool None env) = 0 \<and>
   ThreadStart t \<notin> set (effects (ConnectionPool None env)) \<and>
   configuration (ConnectionPool None env) = configuration static_pool \<and>
   wait_for (connectionTimeout (ConnectionPool None env)) e = timeout \<and>
   getConnection
     ((ConnectionPool None env)
        \<lparr>effects := effects (ConnectionPool None env) @ replicate m (Log AcquireTimeout)\<rparr>)
     ((e, (ConnectionPool None env)
            \<lparr>effects := effects (ConnectionPool None env) @ replicate n (Log AcquireTimeout)\<rparr>)
      # ws) =
     Some (Nullptr,
           (ConnectionPool None env)
             \<lparr>effects := effects (ConnectionPool None env) @
                          replicate (Suc n) (Log AcquireTimeout)\<rparr>) \<and>
   (connectionQue u = [] \<and> connectionTimeout u \<le> 0 \<and> connectionQue q = [] \<longrightarrow>
      getConnection u ((e, q) # ws) =
        Some (Nullptr, q\<lparr>effects := effects q @ [Log AcquireTimeout]\<rparr>))"
proof (intro conjI impI)
  show "loadConfigFile None p = (False, p\<lparr>effects := effects p @ [Log ConfigFileMissing]\<rparr>)"
    by (simp add: loadConfigFile_def)
  show "ConnectionPool None env = static_pool\<lparr>effects := [Log ConfigFileMissing]\<rparr>"
    by (rule ConnectionPool_None)
  show "connectionQue (ConnectionPool None env) = []"
    and "connectionCnt (ConnectionPool None env) = 0"
    and "ThreadStart t \<notin> set (effects (ConnectionPool None env))"
    by (simp_all add: ConnectionPool_None static_pool_def)
  show "configuration (ConnectionPool None env) = configuration static_pool"
    by (simp add: ConnectionPool_None configuration_def)
  show "wait_for (connectionTimeout (ConnectionPool None env)) e = timeout"
    by (simp add: ConnectionPool_None static_pool_def wait_for_def)
  show "getConnection
     ((ConnectionPool None env)
        \<lparr>effects := effects (ConnectionPool None env) @ replicate m (Log AcquireTimeout)\<rparr>)
     ((e, (ConnectionPool None env)
            \<lparr>effects := effects (ConnectionPool None env) @ replicate n (Log AcquireTimeout)\<rparr>)
      # ws) =
     Some (Nullptr,
           (ConnectionPool None env)
             \<lparr>effects := effects (ConnectionPool None env) @
                          replicate (Suc n) (Log AcquireTimeout)\<rparr>)"
    by (simp add: ConnectionPool_None static_pool_def getConnection_empty_Cons wait_for_def
        replicate_append_same)
next
  assume "connectionQue u = [] \<and> connectionTimeout u \<le> 0 \<and> connectionQue q = []"
  then show "getConnection u ((e, q) # ws) =
        Some (Nullptr, q\<lparr>effects := effects q @ [Log AcquireTimeout]\<rparr>)"
    by (simp add: getConnection_empty_Cons wait_for_def)
qed

theorem missing_config_pool_fails_fast_witness:
  "connectionQue (ConnectionPool None ex_env) = [] \<and>
   connectionTimeout (ConnectionPool None ex_env) \<le> 0 \<and>
   getConnection (ConnectionPool None ex_env) ((0, ConnectionPool None ex_env) # []) =
     Some (Nullptr, static_pool\<lparr>effects := [Log ConfigFileMissing, Log AcquireTimeout]\<rparr>) \<and>
   getConnection (static_pool\<lparr>effects := [Log ConfigFileMissing, Log AcquireTimeout]\<rparr>)
     ((7, static_pool\<lparr>effects := [Log ConfigFileMissing, Log AcquireTimeout]\<rparr>) # []) =
     Some (Nullptr,
       static_pool\<lparr>effects := [Log ConfigFileMissing, Log AcquireTimeout, Log AcquireTimeout]\<rparr>)"
proof -
  note T = missing_config_pool_fails_fast
  have h: "connectionQue (ConnectionPool None ex_env) = [] \<and>
    connectionTimeout (ConnectionPool None ex_env) \<le> 0 \<and>
    connectionQue (ConnectionPool None ex_env) = []"
    by (simp add: ConnectionPool_None static_pool_def)
  from T [where env = ex_env and u = "ConnectionPool None ex_env"
      and q = "ConnectionPool None ex_env" and e = 0 and ws = "[]",
      THEN conjunct2, THEN conjunct2, THEN conjunct2, THEN conjunct2, THEN conjunct2,
      THEN conjunct2, THEN conjunct2, THEN conjunct2, THEN mp, OF h]
  have a: "getConnection (ConnectionPool None ex_env) ((0, ConnectionPool None ex_env) # []) =
     Some (Nullptr, static_pool\<lparr>effects := [Log ConfigFileMissing, Log AcquireTimeout]\<rparr>)"
    by (simp add: ConnectionPool_None)
  from T [where env = ex_env and m = 1 and n = 1 and e = 7 and ws = "[]",
      THEN conjunct2, THEN conjunct2, THEN conjunct2, THEN conjunct2, THEN conjunct2,
      THEN conjunct2, THEN conjunct2, THEN conjunct1]
  have b: "getConnection (static_pool\<lparr>effects := [Log ConfigFileMissing, Log AcquireTimeout]\<rparr>)
     ((7, static_pool\<lparr>effects := [Log ConfigFileMissing, Log AcquireTimeout]\<rparr>) # []) =
     Some (Nullptr,
       static_pool\<lparr>effects := [Log ConfigFileMissing, Log AcquireTimeout, Log AcquireTimeout]\<rparr>)"
    by (simp add: ConnectionPool_None)
  from h a b show ?thesis
    by simp
qed

subsection \<open>C9: what getConnection and the deleter leave alone\<close>

text \<open>
  C9: \<open>getConnection\<close> and the deleter of a handle leave the counter of live
  connections and every configuration field as they are. A \<open>getConnection\<close> that
  finds a connection at its entry returns with the counter and the configuration of
  the pool it entered on; one that waits returns, at the first wake-up that times out
  or finds a connection, with the counter and the configuration of the pool it finds at
  that very wake-up, whatever the other threads have made of them during the waits;
  until then it has not returned. The deleter keeps both. The producer returns at the
  first pool with an empty queue, never lowering the counter of that pool, and the
  scanner never raises it; neither touches the configuration.
\<close>

theorem acquire_release_keep_counter:
  "(connectionQue p \<noteq> [] \<longrightarrow>
      (\<exists>h p'. getConnection p ws = Some (h, p') \<and>
         configuration p' = configuration p \<and> connectionCnt p' = connectionCnt p)) \<and>
   (connectionQue p = [] \<and> keeps_waiting p pre \<and>
    (connectionTimeout (last (p # map snd pre)) \<le> int e \<or> connectionQue q \<noteq> []) \<longrightarrow>
      (\<exists>h p'. getConnection p (pre @ (e, q) # post) = Some (h, p') \<and>
         configuration p' = configuration q \<and> connectionCnt p' = connectionCnt q)) \<and>
   ((getConnection p ws = None) = (connectionQue p = [] \<and> keeps_waiting p ws)) \<and>
   configuration (getConnection_deleter p pcon now) = configuration p \<and>
   connectionCnt (getConnection_deleter p pcon now) = connectionCnt p \<and>
   (p # vs = qs @ r # rs \<and> (\<forall>x \<in> set qs. connectionQue x \<noteq> []) \<and>
    connectionQue r = [] \<longrightarrow>
      (\<exists>pa. produceConnectionTask_iter p vs ok now = Some pa \<and>
         configuration pa = configuration r \<and>
         connectionCnt r \<le> connectionCnt pa \<and> connectionCnt pa \<le> connectionCnt r + 1)) \<and>
   (scannerConnectionTask_cycle p now = Inr pb \<longrightarrow>
      configuration pb = configuration p \<and> connectionCnt pb \<le> connectionCnt p)"
proof (intro conjI impI)
  assume "connectionQue p \<noteq> []"
  then obtain c rest where "connectionQue p = c # rest"
    by (cases "connectionQue p") auto
  then show "\<exists>h p'. getConnection p ws = Some (h, p') \<and>
         configuration p' = configuration p \<and> connectionCnt p' = connectionCnt p"
    by (simp add: getConnection_nonempty configuration_def)
next
  assume a: "connectionQue p = [] \<and> keeps_waiting p pre \<and>
    (connectionTimeout (last (p # map snd pre)) \<le> int e \<or> connectionQue q \<noteq> [])"
  then have g: "getConnection p (pre @ (e, q) # post) =
      getConnection (last (p # map snd pre)) ((e, q) # post)"
    and l: "connectionQue (last (p # map snd pre)) = []"
    using getConnection_waiting_prefix [of p pre "(e, q) # post"] by blast+
  show "\<exists>h p'. getConnection p (pre @ (e, q) # post) = Some (h, p') \<and>
         configuration p' = configuration q \<and> connectionCnt p' = connectionCnt q"
  proof (cases "connectionQue q")
    case Nil
    with a have "connectionTimeout (last (p # map snd pre)) \<le> int e"
      by simp
    with g l Nil show ?thesis
      by (simp add: getConnection_empty_Cons wait_for_timeout_iff configuration_def)
  next
    case (Cons c rest)
    with g l show ?thesis
      by (simp add: getConnection_empty_Cons getConnection_nonempty configuration_def)
  qed
next
  show "(getConnection p ws = None) = (connectionQue p = [] \<and> keeps_waiting p ws)"
    by (rule getConnection_None_iff)
next
  show "configuration (getConnection_deleter p pcon now) = configuration p"
    by (simp add: getConnection_deleter_def configuration_def)
next
  show "connectionCnt (getConnection_deleter p pcon now) = connectionCnt p"
    by (simp add: getConnection_deleter_def)
next
  assume a: "p # vs = qs @ r # rs \<and> (\<forall>x \<in> set qs. connectionQue x \<noteq> []) \<and>
    connectionQue r = []"
  then have "produceConnectionTask_iter p vs ok now = produceConnectionTask_iter r rs ok now"
    using produce_waiting_prefix [of qs p vs r rs ok now] by blast
  with a show "\<exists>pa. produceConnectionTask_iter p vs ok now = Some pa \<and>
         configuration pa = configuration r \<and>
         connectionCnt r \<le> connectionCnt pa \<and> connectionCnt pa \<le> connectionCnt r + 1"
    by (simp add: produce_empty configuration_def)
next
  assume s: "scannerConnectionTask_cycle p now = Inr pb"
  from scanner_frame(1) [OF s] show "configuration pb = configuration p" .
  from scanner_frame(2) [OF s] show "connectionCnt pb \<le> connectionCnt p" .
qed

theorem acquire_release_keep_counter_witness:
  "connectionQue ex_pool1 = [] \<and> keeps_waiting ex_pool1 [] \<and> connectionQue ex_pool2 \<noteq> [] \<and>
   getConnection ex_pool1 ([] @ (0, ex_pool2) # []) =
     Some (Handle \<lparr>connected = True, alivetime = 5\<rparr>, ex_pool3) \<and>
   connectionCnt ex_pool1 = 1 \<and> connectionCnt ex_pool2 = 2 \<and>
   configuration ex_pool3 = configuration ex_pool2 \<and>
   connectionCnt ex_pool3 = connectionCnt ex_pool2 \<and>
   connectionQue ex_pool0 \<noteq> [] \<and>
   getConnection ex_pool0 [] = Some (Handle \<lparr>connected = True, alivetime = 0\<rparr>, ex_pool1) \<and>
   configuration ex_pool1 = configuration ex_pool0 \<and>
   connectionCnt ex_pool1 = connectionCnt ex_pool0 \<and>
   getConnection ex_pool3 [(40, ex_pool3)] = None \<and>
   configuration (getConnection_deleter ex_pool3 \<lparr>connected = True, alivetime = 0\<rparr> 9) =
     configuration ex_pool3 \<and>
   connectionCnt (getConnection_deleter ex_pool3 \<lparr>connected = True, alivetime = 0\<rparr> 9) = 2 \<and>
   produceConnectionTask_iter ex_pool0 [ex_pool1] True 5 = Some ex_pool2 \<and>
   configuration ex_pool2 = configuration ex_pool1 \<and>
   connectionCnt ex_pool1 \<le> connectionCnt ex_pool2 \<and>
   scannerConnectionTask_cycle ex_pool2 60005 =
     Inr (ex_pool1\<lparr>effects := effects ex_pool2 @ [Delete \<lparr>connected = True, alivetime = 5\<rparr>]\<rparr>) \<and>
   connectionCnt (ex_pool1\<lparr>effects := effects ex_pool2 @ [Delete \<lparr>connected = True, alivetime = 5\<rparr>]\<rparr>)
     \<le> connectionCnt ex_pool2"
proof -
  note T = acquire_release_keep_counter
  let ?pb = "ex_pool1\<lparr>effects := effects ex_pool2 @ [Delete \<lparr>connected = True, alivetime = 5\<rparr>]\<rparr>"
  have c1: "connectionCnt ex_pool1 = 1" and c2: "connectionCnt ex_pool2 = 2"
    by (simp_all add: ex_pool1_def ex_pool2_def ex_pool0_def)
  have q0: "connectionQue ex_pool0 \<noteq> []" and q1: "connectionQue ex_pool1 = []"
    and q2: "connectionQue ex_pool2 \<noteq> []" and q3: "connectionQue ex_pool3 = []"
    by (simp_all add: ex_pool0_def ex_pool1_def ex_pool2_def ex_pool3_def)
  have g: "getConnection ex_pool1 ([] @ (0, ex_pool2) # []) =
      Some (Handle \<lparr>connected = True, alivetime = 5\<rparr>, ex_pool3)"
    by (simp add: getConnection_empty_Cons getConnection_nonempty wait_for_def
        ex_pool0_def ex_pool1_def ex_pool2_def ex_pool3_def)
  have hb: "connectionQue ex_pool1 = [] \<and> keeps_waiting ex_pool1 [] \<and>
    (connectionTimeout (last (ex_pool1 # map snd [])) \<le> int 0 \<or> connectionQue ex_pool2 \<noteq> [])"
    using q1 q2 by simp
  from T [where p = ex_pool1 and pre = "[]" and e = 0 and q = ex_pool2 and post = "[]",
      THEN conjunct2, THEN conjunct1, THEN mp, OF hb] g
  have b: "configuration ex_pool3 = configuration ex_pool2 \<and>
           connectionCnt ex_pool3 = connectionCnt ex_pool2"
    by simp
  from T [where p = ex_pool0 and ws = "[]", THEN conjunct1, THEN mp, OF q0] getConnection_ex0
  have a: "configuration ex_pool1 = configuration ex_pool0 \<and>
           connectionCnt ex_pool1 = connectionCnt ex_pool0"
    by simp
  have "connectionQue ex_pool3 = [] \<and> keeps_waiting ex_pool3 [(40, ex_pool3)]"
    by (simp add: wait_for_def ex_pool3_def ex_pool0_def)
  with T [where p = ex_pool3 and ws = "[(40, ex_pool3)]",
      THEN conjunct2, THEN conjunct2, THEN conjunct1]
  have n: "getConnection ex_pool3 [(40, ex_pool3)] = None"
    by blast
  note u = T [where p = ex_pool3 and pcon = "\<lparr>connected = True, alivetime = 0\<rparr>" and now = 9,
      THEN conjunct2, THEN conjunct2, THEN conjunct2]
  have d1: "configuration (getConnection_deleter ex_pool3 \<lparr>connected = True, alivetime = 0\<rparr> 9) =
      configuration ex_pool3"
    using u by (rule conjunct1)
  have "connectionCnt (getConnection_deleter ex_pool3 \<lparr>connected = True, alivetime = 0\<rparr> 9) =
      connectionCnt ex_pool3"
    using u by (rule conjunct2 [THEN conjunct1])
  then have d2: "connectionCnt (getConnection_deleter ex_pool3 \<lparr>connected = True, alivetime = 0\<rparr> 9) = 2"
    by (simp add: ex_pool3_def)
  have pr: "produceConnectionTask_iter ex_pool0 [ex_pool1] True 5 = Some ex_pool2"
    using q0 produce_ex1 by (simp add: produce_nonempty_Cons)
  have hp: "ex_pool0 # [ex_pool1] = [ex_pool0] @ ex_pool1 # [] \<and>
    (\<forall>x \<in> set [ex_pool0]. connectionQue x \<noteq> []) \<and> connectionQue ex_pool1 = []"
    using q0 q1 by simp
  from T [where p = ex_pool0 and vs = "[ex_pool1]" and qs = "[ex_pool0]" and r = ex_pool1
        and rs = "[]" and ok = True and now = 5,
      THEN conjunct2, THEN conjunct2, THEN conjunct2, THEN conjunct2, THEN conjunct2,
      THEN conjunct1, THEN mp, OF hp] pr
  have e: "configuration ex_pool2 = configuration ex_pool1 \<and>
           connectionCnt ex_pool1 \<le> connectionCnt ex_pool2"
    by simp
  have s: "scannerConnectionTask_cycle ex_pool2 60005 = Inr ?pb"
    by (simp add: scannerConnectionTask_cycle.simps ex_pool2_def ex_pool1_def ex_pool0_def
        int_range_def getAliveeTime_def)
  from T [where p = ex_pool2 and now = 60005 and pb = ?pb,
      THEN conjunct2, THEN conjunct2, THEN conjunct2, THEN conjunct2, THEN conjunct2,
      THEN conjunct2, THEN mp, OF s]
  have f: "connectionCnt ?pb \<le> connectionCnt ex_pool2"
    by (rule conjunct2)
  from c1 c2 q0 q1 q2 g b a n d1 d2 pr e s f getConnection_ex0 show ?thesis
    by simp
qed

subsection \<open>C10: the lines of the configuration file\<close>

text \<open>
  C10 (as the code has it): a line \<open>key=value\<close> ending in a newline, free of NUL and
  with at most 1023 characters before the newline, makes \<open>loadConfigFile\<close> store the
  characters strictly between the first \<open>=\<close> and the newline under \<open>key\<close>, on top of
  what the lines before it have stored, and go on with the lines after it; a number is
  stored as \<open>atoi\<close> gives it, within the range of \<open>int\<close>. A line without \<open>=\<close>, of any
  length, is skipped: the file reads as if the line were not there. A line with 1023
  characters or more before its newline is read as if a newline stood after its first
  1023 characters: every piece of 1023 characters is parsed as a line of its own.
  \<open>loadConfigFile\<close> returns true whenever the file could be opened.
\<close>

theorem loadConfigFile_key_value_line:
  "((pre = [] \<or> last pre = CHR 0x0A) \<and> CHR ''='' \<notin> set k \<and> CHR 0x0A \<notin> set (k @ v) \<and>
    CHR 0x00 \<notin> set (k @ v) \<and> length (k @ ''='' @ v) \<le> 1023 \<longrightarrow>
      loadConfigFile (Some (pre @ k @ ''='' @ v @ [CHR 0x0A] @ rest)) p =
        (True, loadConfigFile_loop rest False
                 (store_config k v (snd (loadConfigFile (Some pre) p))))) \<and>
   ((pre = [] \<or> last pre = CHR 0x0A) \<and> CHR ''='' \<notin> set l \<and> CHR 0x0A \<notin> set l \<longrightarrow>
      loadConfigFile (Some (pre @ l @ [CHR 0x0A] @ rest)) p =
        loadConfigFile (Some (pre @ rest)) p) \<and>
   ((pre = [] \<or> last pre = CHR 0x0A) \<and> CHR 0x0A \<notin> set s \<and> 1023 \<le> length s \<longrightarrow>
      loadConfigFile (Some (pre @ s @ [CHR 0x0A] @ rest)) p =
        loadConfigFile
          (Some (pre @ take 1023 s @ [CHR 0x0A] @ drop 1023 s @ [CHR 0x0A] @ rest)) p) \<and>
   int_range (atoi v) \<and>
   fst (loadConfigFile (Some cs) p) = True"
proof (intro conjI impI)
  assume a: "(pre = [] \<or> last pre = CHR 0x0A) \<and> CHR ''='' \<notin> set k \<and>
    CHR 0x0A \<notin> set (k @ v) \<and> CHR 0x00 \<notin> set (k @ v) \<and> length (k @ ''='' @ v) \<le> 1023"
  then have pre: "pre = [] \<or> last pre = CHR 0x0A"
    and k: "CHR ''='' \<notin> set k" "CHR 0x0A \<notin> set (k @ v)" "CHR 0x00 \<notin> set (k @ v)"
      "length (k @ CHR ''='' # v) \<le> 1023"
    by simp_all
  have "loadConfigFile_loop (pre @ k @ CHR ''='' # v @ CHR 0x0A # rest) False p =
      loadConfigFile_loop (k @ CHR ''='' # v @ CHR 0x0A # rest) False
        (loadConfigFile_loop pre False p)"
    using pre by (rule loadConfigFile_loop_prefix)
  also have "\<dots> = loadConfigFile_loop rest False
      (store_config k v (loadConfigFile_loop pre False p))"
    using k by (rule loadConfigFile_loop_key_value)
  finally show "loadConfigFile (Some (pre @ k @ ''='' @ v @ [CHR 0x0A] @ rest)) p =
        (True, loadConfigFile_loop rest False
                 (store_config k v (snd (loadConfigFile (Some pre) p))))"
    by (simp add: loadConfigFile_def)
next
  assume a: "(pre = [] \<or> last pre = CHR 0x0A) \<and> CHR ''='' \<notin> set l \<and> CHR 0x0A \<notin> set l"
  then have pre: "pre = [] \<or> last pre = CHR 0x0A"
    and l: "CHR ''='' \<notin> set l" "CHR 0x0A \<notin> set l"
    by simp_all
  have "loadConfigFile_loop (pre @ l @ CHR 0x0A # rest) False p =
      loadConfigFile_loop (l @ CHR 0x0A # rest) False (loadConfigFile_loop pre False p)"
    using pre by (rule loadConfigFile_loop_prefix)
  also have "\<dots> = loadConfigFile_loop rest False (loadConfigFile_loop pre False p)"
    using l by (rule loadConfigFile_loop_skip)
  also have "\<dots> = loadConfigFile_loop (pre @ rest) False p"
    using pre by (rule loadConfigFile_loop_prefix [symmetric])
  finally show "loadConfigFile (Some (pre @ l @ [CHR 0x0A] @ rest)) p =
        loadConfigFile (Some (pre @ rest)) p"
    by (simp add: loadConfigFile_def)
next
  assume a: "(pre = [] \<or> last pre = CHR 0x0A) \<and> CHR 0x0A \<notin> set s \<and> 1023 \<le> length s"
  then have pre: "pre = [] \<or> last pre = CHR 0x0A"
    and s: "CHR 0x0A \<notin> set s" "1023 \<le> length s"
    by simp_all
  let ?p = "loadConfigFile_loop pre False p"
  let ?t = "take 1023 s"
  let ?r = "drop 1023 s @ CHR 0x0A # rest"
  let ?q = "loadConfigFile_line (takeWhile (\<lambda>c. c \<noteq> CHR 0x00) ?t) ?p"
  have "loadConfigFile_loop (pre @ s @ CHR 0x0A # rest) False p =
      loadConfigFile_loop (s @ CHR 0x0A # rest) False ?p"
    using pre by (rule loadConfigFile_loop_prefix)
  also have "\<dots> = loadConfigFile_loop ?r False ?q"
    using s by (rule loadConfigFile_loop_long)
  finally have lhs: "loadConfigFile_loop (pre @ s @ CHR 0x0A # rest) False p =
      loadConfigFile_loop ?r False ?q" .
  have t: "CHR 0x0A \<notin> set ?t" "1023 \<le> length ?t" "take 1023 ?t = ?t" "drop 1023 ?t = []"
    using s by (auto dest: in_set_takeD)
  have "loadConfigFile_loop (pre @ ?t @ CHR 0x0A # ?r) False p =
      loadConfigFile_loop (?t @ CHR 0x0A # ?r) False ?p"
    using pre by (rule loadConfigFile_loop_prefix)
  also have "\<dots> = loadConfigFile_loop ([] @ CHR 0x0A # ?r) False ?q"
    using loadConfigFile_loop_long [OF t(1,2), of ?r ?p] by (simp only: t(3,4))
  also have "\<dots> = loadConfigFile_loop ?r False ?q"
    by (rule loadConfigFile_loop_skip) simp_all
  finally have rhs: "loadConfigFile_loop (pre @ ?t @ CHR 0x0A # ?r) False p =
      loadConfigFile_loop ?r False ?q" .
  from lhs rhs show "loadConfigFile (Some (pre @ s @ [CHR 0x0A] @ rest)) p =
        loadConfigFile
          (Some (pre @ take 1023 s @ [CHR 0x0A] @ drop 1023 s @ [CHR 0x0A] @ rest)) p"
    by (simp add: loadConfigFile_def)
next
  show "int_range (atoi v)"
    by (rule atoi_int_range)
next
  show "fst (loadConfigFile (Some cs) p) = True"
    by (simp add: loadConfigFile_def)
qed

theorem loadConfigFile_key_value_line_witness:
  "last (''ip=127.0.0.1'' @ [CHR 0x0A]) = CHR 0x0A \<and>
   CHR ''='' \<notin> set ''maxIdleTime'' \<and> CHR 0x0A \<notin> set (''maxIdleTime'' @ ''2147483648'') \<and>
   CHR 0x00 \<notin> set (''maxIdleTime'' @ ''2147483648'') \<and>
   length (''maxIdleTime'' @ ''='' @ ''2147483648'') \<le> 1023 \<and>
   loadConfigFile
     (Some ((''ip=127.0.0.1'' @ [CHR 0x0A]) @ ''maxIdleTime'' @ ''='' @ ''2147483648'' @
            [CHR 0x0A] @ (''maxSize=2'' @ [CHR 0x0A]))) static_pool =
     (True, static_pool\<lparr>ip := ''127.0.0.1'', maxIdleTime := - 2147483648, maxSize := 2\<rparr>) \<and>
   CHR ''='' \<notin> set ''# pool'' \<and> CHR 0x0A \<notin> set ''# pool'' \<and>
   loadConfigFile
     (Some ((''ip=127.0.0.1'' @ [CHR 0x0A]) @ ''# pool'' @ [CHR 0x0A] @
            (''maxSize=2'' @ [CHR 0x0A]))) static_pool =
     (True, static_pool\<lparr>ip := ''127.0.0.1'', maxSize := 2\<rparr>) \<and>
   CHR 0x0A \<notin> set (''ip='' @ replicate 1020 CHR ''a'' @ ''maxSize=7'') \<and>
   1023 \<le> length (''ip='' @ replicate 1020 CHR ''a'' @ ''maxSize=7'') \<and>
   loadConfigFile
     (Some ([] @ (''ip='' @ replicate 1020 CHR ''a'' @ ''maxSize=7'') @ [CHR 0x0A] @ []))
     static_pool =
     (True, static_pool\<lparr>ip := replicate 1020 CHR ''a'', maxSize := 7\<rparr>)"
proof -
  note T = loadConfigFile_key_value_line
  let ?pre = "''ip=127.0.0.1'' @ [CHR 0x0A]"
  let ?rest = "''maxSize=2'' @ [CHR 0x0A]"
  have h1: "(?pre = [] \<or> last ?pre = CHR 0x0A) \<and> CHR ''='' \<notin> set ''maxIdleTime'' \<and>
    CHR 0x0A \<notin> set (''maxIdleTime'' @ ''2147483648'') \<and>
    CHR 0x00 \<notin> set (''maxIdleTime'' @ ''2147483648'') \<and>
    length (''maxIdleTime'' @ ''='' @ ''2147483648'') \<le> 1023"
    by simp
  have h2: "(?pre = [] \<or> last ?pre = CHR 0x0A) \<and> CHR ''='' \<notin> set ''# pool'' \<and>
    CHR 0x0A \<notin> set ''# pool''"
    by simp
  have e1: "(True, loadConfigFile_loop ?rest False
                 (store_config ''maxIdleTime'' ''2147483648''
                    (snd (loadConfigFile (Some ?pre) static_pool)))) =
      (True, static_pool\<lparr>ip := ''127.0.0.1'', maxIdleTime := - 2147483648, maxSize := 2\<rparr>)"
    by code_simp
  have e2: "loadConfigFile (Some (?pre @ ?rest)) static_pool =
      (True, static_pool\<lparr>ip := ''127.0.0.1'', maxSize := 2\<rparr>)"
    by code_simp
  from T [where pre = ?pre and k = "''maxIdleTime''" and v = "''2147483648''" and rest = ?rest
      and p = static_pool, THEN conjunct1, THEN mp, OF h1] e1
  have a: "loadConfigFile
      (Some (?pre @ ''maxIdleTime'' @ ''='' @ ''2147483648'' @ [CHR 0x0A] @ ?rest)) static_pool =
     (True, static_pool\<lparr>ip := ''127.0.0.1'', maxIdleTime := - 2147483648, maxSize := 2\<rparr>)"
    by (rule trans)
  from T [where pre = ?pre and l = "''# pool''" and rest = ?rest and p = static_pool,
      THEN conjunct2, THEN conjunct1, THEN mp, OF h2] e2
  have b: "loadConfigFile (Some (?pre @ ''# pool'' @ [CHR 0x0A] @ ?rest)) static_pool =
     (True, static_pool\<lparr>ip := ''127.0.0.1'', maxSize := 2\<rparr>)"
    by (rule trans)
  let ?s = "''ip='' @ replicate 1020 CHR ''a'' @ ''maxSize=7''"
  have tk: "take 1023 ?s = ''ip'' @ CHR ''='' # replicate 1020 CHR ''a''"
    by simp
  have dr: "drop 1023 ?s = ''maxSize'' @ CHR ''='' # ''7''"
    by simp
  have h3: "([] = [] \<or> last [] = CHR 0x0A) \<and> CHR 0x0A \<notin> set ?s \<and> 1023 \<le> length ?s"
    by simp
  let ?p = "store_config ''ip'' (replicate 1020 CHR ''a'') static_pool"
  have "loadConfigFile_loop
      ((''ip'' @ CHR ''='' # replicate 1020 CHR ''a'') @ CHR 0x0A #
        (''maxSize'' @ CHR ''='' # ''7'' @ CHR 0x0A # [])) False static_pool =
      loadConfigFile_loop (''maxSize'' @ CHR ''='' # ''7'' @ CHR 0x0A # []) False ?p"
    using loadConfigFile_loop_key_value
      [of "''ip''" "replicate 1020 CHR ''a''" "''maxSize'' @ CHR ''='' # ''7'' @ CHR 0x0A # []"
         static_pool]
    by simp
  also have "\<dots> = loadConfigFile_loop [] False (store_config ''maxSize'' ''7'' ?p)"
    by (rule loadConfigFile_loop_key_value) simp_all
  also have "\<dots> = store_config ''maxSize'' ''7'' ?p"
    by (rule loadConfigFile_loop_Nil)
  also have "\<dots> = static_pool\<lparr>ip := replicate 1020 CHR ''a'', maxSize := 7\<rparr>"
    by (simp add: store_config_def, code_simp)
  finally have e3: "loadConfigFile
      (Some ([] @ take 1023 ?s @ [CHR 0x0A] @ drop 1023 ?s @ [CHR 0x0A] @ [])) static_pool =
      (True, static_pool\<lparr>ip := replicate 1020 CHR ''a'', maxSize := 7\<rparr>)"
    by (simp only: tk dr) (simp add: loadConfigFile_def)
  from T [where pre = "[]" and s = ?s and rest = "[]" and p = static_pool,
      THEN conjunct2, THEN conjunct2, THEN conjunct1, THEN mp, OF h3] e3
  have c: "loadConfigFile (Some ([] @ ?s @ [CHR 0x0A] @ [])) static_pool =
     (True, static_pool\<lparr>ip := replicate 1020 CHR ''a'', maxSize := 7\<rparr>)"
    by (rule trans)
  from h1 h2 h3 have "last ?pre = CHR 0x0A \<and>
   CHR ''='' \<notin> set ''maxIdleTime'' \<and> CHR 0x0A \<notin> set (''maxIdleTime'' @ ''2147483648'') \<and>
   CHR 0x00 \<notin> set (''maxIdleTime'' @ ''2147483648'') \<and>
   length (''maxIdleTime'' @ ''='' @ ''2147483648'') \<le> 1023 \<and>
   CHR ''='' \<notin> set ''# pool'' \<and> CHR 0x0A \<notin> set ''# pool'' \<and>
   CHR 0x0A \<notin> set ?s \<and> 1023 \<le> length ?s"
    by simp
  with a b c show ?thesis
    by blast
qed

text \<open>
  C10 as the spec states it fails on a line that does not fit the buffer: of the line
  \<open>ip=\<close> followed by 1021 times \<open>a\<close> and a newline, \<open>fgets\<close> reads the first 1023
  characters, and \<open>_ip\<close> receives 1020 of the 1021 characters of the value.
\<close>

theorem loadConfigFile_long_line_counterexample:
  "ex_long_line = ''ip='' @ replicate 1021 CHR ''a'' @ [CHR 0x0A] \<and>
   ip (snd (loadConfigFile (Some ex_long_line) static_pool)) = replicate 1020 CHR ''a'' \<and>
   replicate 1020 CHR ''a'' \<noteq> replicate 1021 CHR ''a''"
proof -
  let ?l = "''ip='' @ replicate 1021 CHR ''a''"
  have tk: "take 1023 ?l = ''ip'' @ CHR ''='' # replicate 1020 CHR ''a''"
    by simp
  have dr: "drop 1023 ?l = ''a''"
    by simp
  have "CHR 0x0A \<notin> set (take 1023 ?l)"
    by (simp only: tk) simp
  from fgets_long [OF this, of "[CHR 0x0A]"]
  have f: "fgets 1023 (?l @ [CHR 0x0A]) =
      (''ip'' @ CHR ''='' # replicate 1020 CHR ''a'', ''a'' @ CHR 0x0A # [], False)"
    by (simp only: tk dr) simp
  have "\<forall>c \<in> set (''ip'' @ CHR ''='' # replicate 1020 CHR ''a''). c \<noteq> CHR 0x00"
    by simp
  then have t: "takeWhile (\<lambda>c. c \<noteq> CHR 0x00) (''ip'' @ CHR ''='' # replicate 1020 CHR ''a'') =
      ''ip'' @ CHR ''='' # replicate 1020 CHR ''a''"
    by (simp only: takeWhile_eq_all_conv)
  have s: "loadConfigFile_line (''ip'' @ CHR ''='' # replicate 1020 CHR ''a'') static_pool =
      store_config ''ip'' (replicate 1020 CHR ''a'') static_pool"
    by (rule loadConfigFile_line_key_value) simp_all
  have "loadConfigFile_loop (?l @ [CHR 0x0A]) False static_pool =
      loadConfigFile_loop (''a'' @ CHR 0x0A # []) False
        (store_config ''ip'' (replicate 1020 CHR ''a'') static_pool)"
    using loadConfigFile_loop_step [OF f, of static_pool] by (simp only: t s)
  also have "\<dots> = loadConfigFile_loop [] False
        (store_config ''ip'' (replicate 1020 CHR ''a'') static_pool)"
    by (rule loadConfigFile_loop_skip) simp_all
  finally have "loadConfigFile_loop (?l @ [CHR 0x0A]) False static_pool =
      store_config ''ip'' (replicate 1020 CHR ''a'') static_pool"
    by (simp only: loadConfigFile_loop_Nil)
  then have "ip (snd (loadConfigFile (Some ex_long_line) static_pool)) = replicate 1020 CHR ''a''"
    by (simp add: loadConfigFile_def ex_long_line_def store_config_def)
  then show ?thesis
    by (simp add: ex_long_line_def)
qed

end
